theory Spec2Isabelle
  imports Complex_Main "HOL-Library.AList"
begin

section \<open>Link-health checker: statuses and responses\<close>

text \<open>
  The client declares \<^verbatim>\<open>LinkHealthStatus = "ok" | "dead"\<close> and an internal
  \<^verbatim>\<open>InternalLinkHealthStatus = LinkHealthStatus | "unknown"\<close>. TypeScript erases both at
  run time, and the server (plain JavaScript) uses the same three strings, so one datatype
  with three values stands for all of them: that a public result is never \<open>Unknown\<close> is then
  a property to prove, not a typing fact.
\<close>

datatype status = Ok | Dead | Unknown

text \<open>
  The part of a Fetch \<^verbatim>\<open>Response\<close> the code reads: \<^verbatim>\<open>type\<close>, \<^verbatim>\<open>status\<close>, \<^verbatim>\<open>url\<close>,
  and, for the server API's answer, the \<^verbatim>\<open>status\<close> member of the JSON body
  (\<open>None\<close> when the body is not JSON, is not an object or has no string \<^verbatim>\<open>status\<close>:
  \<^verbatim>\<open>resp.json().catch(() => null)\<close> followed by \<^verbatim>\<open>data?.status\<close>).
\<close>

record response =
  resp_type :: string
  resp_status :: int
  resp_url :: string
  resp_json_status :: "string option"

text \<open>\<^verbatim>\<open>Response.ok\<close> of the Fetch API: the status is in the range 200 to 299.\<close>

definition resp_ok :: "response \<Rightarrow> bool" where
  "resp_ok r = (200 \<le> resp_status r \<and> resp_status r \<le> 299)"

subsection \<open>Response classification\<close>

text \<open>Client, \<^verbatim>\<open>classifyResponse\<close> (linkValidator.ts).\<close>

definition classifyResponse :: "response \<Rightarrow> status" where
  "classifyResponse resp =
     (if resp_type resp = ''opaque'' then Unknown
      else let status = resp_status resp in
        if status = 404 \<or> status = 410 then Dead
        else if status = 401 \<or> status = 403 then Dead
        else if status \<ge> 500 then Dead
        else if status \<ge> 200 \<and> status < 400 then Ok
        else Unknown)"

text \<open>Server, \<^verbatim>\<open>classifyStatus\<close>.\<close>

definition classifyStatus :: "int \<Rightarrow> status" where
  "classifyStatus status =
     (if status = 404 \<or> status = 410 then Dead
      else if status = 401 \<or> status = 403 then Dead
      else if status \<ge> 500 then Dead
      else if status \<ge> 200 \<and> status < 400 then Ok
      else Unknown)"

text \<open>
  The classification contract as the specification words it: 404 and 410 are dead, 401 and
  403 are dead, everything from 500 up is dead, 200 to 399 is ok, anything else (1xx, or a
  response that is opaque because of cross-origin restrictions) is unknown.
\<close>

definition classify_spec :: "bool \<Rightarrow> int \<Rightarrow> status" where
  "classify_spec opaque code =
     (if opaque then Unknown
      else if code \<in> {404, 410} then Dead
      else if code \<in> {401, 403} then Dead
      else if 500 \<le> code then Dead
      else if code \<in> {200..399} then Ok
      else Unknown)"

section \<open>The platform: strings, URLs, fetch and abort signals\<close>

text \<open>
  JavaScript strings are modelled as \<^typ>\<open>string\<close>, one \<^typ>\<open>char\<close> per code unit, for
  code units below 256. \<^verbatim>\<open>String.prototype.trim\<close> strips the ECMAScript white space and
  line terminators from both ends; below 256 these are the code units 9 to 13, 32 and 160.
\<close>

definition isWhiteSpace :: "char \<Rightarrow> bool" where
  "isWhiteSpace c = ((of_char c :: nat) \<in> {9, 10, 11, 12, 13, 32, 160})"

definition trim :: "string \<Rightarrow> string" where
  "trim s = rev (dropWhile isWhiteSpace (rev (dropWhile isWhiteSpace s)))"

text \<open>
  \<^verbatim>\<open>new URL(s)\<close> is the platform's WHATWG parser; it is a parameter of the model. It
  either throws (\<open>None\<close>) or gives an object of which the code reads \<^verbatim>\<open>protocol\<close>,
  \<^verbatim>\<open>toString()\<close>, \<^verbatim>\<open>hostname\<close> and \<^verbatim>\<open>port\<close> (\<open>None\<close> for the empty port string).
\<close>

record parsed_url =
  url_protocol :: string
  url_href :: string
  url_hostname :: string
  url_port :: "int option"

type_synonym url_parser = "string \<Rightarrow> parsed_url option"

text \<open>A thrown value, as far as the code inspects it: \<^verbatim>\<open>name\<close>, \<^verbatim>\<open>message\<close>, \<^verbatim>\<open>code\<close>.\<close>

record js_error =
  err_name :: string
  err_message :: string
  err_code :: string

definition abortError :: js_error where
  "abortError = \<lparr>err_name = ''AbortError'', err_message = ''This operation was aborted'',
     err_code = []\<rparr>"

definition typeError :: "string \<Rightarrow> js_error" where
  "typeError m = \<lparr>err_name = ''TypeError'', err_message = m, err_code = []\<rparr>"

definition plainError :: "string \<Rightarrow> js_error" where
  "plainError m = \<lparr>err_name = ''Error'', err_message = m, err_code = []\<rparr>"

text \<open>
  Requests. The client's call of the server endpoint is kept structured (normalized url,
  mode, timeoutMs) instead of as the query string that \<^verbatim>\<open>encodeURIComponent\<close> builds.
\<close>

datatype http_method = HEAD | GET

datatype request =
  Direct http_method string
  | LinkHealthApi string string int

text \<open>
  What the network does with a request that was started: it answers, it fails (fetch
  rejects with a \<^verbatim>\<open>TypeError\<close>), or the abort signal given with the request fires while the
  request is in flight, because the timer of the controller that the issuing function
  created ran out (\<open>TimedOut\<close>) or because the signal handed in by that function's caller
  aborted (\<open>Cancelled\<close>). Every request is assumed to settle in one of these ways.
\<close>

datatype net_outcome = Responds response | Fails string | TimedOut | Cancelled

type_synonym network = "request \<Rightarrow> net_outcome"

datatype fetch_result = Resolved response | Rejected js_error

text \<open>
  \<^verbatim>\<open>fetch(url, {signal})\<close> of the Fetch standard. With a signal that is already aborted the
  call rejects with an \<^verbatim>\<open>AbortError\<close> before any request is started. The second component
  lists the requests that were started.
\<close>

definition fetch :: "network \<Rightarrow> bool \<Rightarrow> request \<Rightarrow> fetch_result \<times> request list" where
  "fetch net aborted req =
     (if aborted then (Rejected abortError, [])
      else (case net req of
              Responds r \<Rightarrow> Resolved r
            | Fails m \<Rightarrow> Rejected (typeError m)
            | TimedOut \<Rightarrow> Rejected abortError
            | Cancelled \<Rightarrow> Rejected abortError, [req]))"

text \<open>Whether the signal given with a request is aborted once the call has settled.\<close>

definition aborted_after :: "network \<Rightarrow> bool \<Rightarrow> request \<Rightarrow> bool" where
  "aborted_after net aborted req = (aborted \<or> net req = TimedOut \<or> net req = Cancelled)"

text \<open>
  Whether the caller's signal is aborted once a call has settled that was made under a
  signal merged from the caller's signal and a local timer.
\<close>

definition caller_aborted_after :: "network \<Rightarrow> bool \<Rightarrow> request \<Rightarrow> bool" where
  "caller_aborted_after net aborted req = (aborted \<or> net req = Cancelled)"

section \<open>Client service (linkValidator.ts)\<close>

text \<open>\<^verbatim>\<open>normalizeUrl\<close>; the server's helper of the same name has the same body.\<close>

definition normalizeUrl :: "url_parser \<Rightarrow> string \<Rightarrow> string option" where
  "normalizeUrl newURL rawUrl =
     (let trimmed = trim rawUrl in
      if trimmed = [] then None
      else (case newURL trimmed of
              Some u \<Rightarrow>
                if url_protocol u \<noteq> ''http:'' \<and> url_protocol u \<noteq> ''https:'' then None
                else Some (url_href u)
            | None \<Rightarrow>
                (case newURL (''https://'' @ trimmed) of
                   Some u \<Rightarrow> Some (url_href u)
                 | None \<Rightarrow> None)))"

definition isAbortError :: "js_error \<Rightarrow> bool" where
  "isAbortError e = (err_name e = ''AbortError'')"

text \<open>
  \<^verbatim>\<open>mergeSignals(externalSignal, internalController)\<close>: the state of the returned signal
  at the time of the call. The argument is \<open>None\<close> when no external signal was passed and
  \<open>Some a\<close> for a signal whose \<^verbatim>\<open>aborted\<close> flag is \<open>a\<close>; the controller is fresh.
\<close>

definition mergeSignals :: "bool option \<Rightarrow> bool" where
  "mergeSignals externalSignal =
     (case externalSignal of None \<Rightarrow> False | Some a \<Rightarrow> a)"

text \<open>
  \<^verbatim>\<open>checkLinkHealthViaApi\<close>. The result is the returned value (\<open>None\<close> for \<^verbatim>\<open>null\<close>),
  the state of the caller's signal afterwards, and the requests started.
\<close>

definition checkLinkHealthViaApi ::
  "url_parser \<Rightarrow> network \<Rightarrow> string \<Rightarrow> int option \<Rightarrow> bool option \<Rightarrow> string option
     \<Rightarrow> status option \<times> bool \<times> request list" where
  "checkLinkHealthViaApi newURL net url timeoutOpt signalOpt modeOpt =
     (case normalizeUrl newURL url of
        None \<Rightarrow> (None, mergeSignals signalOpt, [])
      | Some normalized \<Rightarrow>
          let timeoutMs = (case timeoutOpt of None \<Rightarrow> 8000 | Some t \<Rightarrow> t);
              signal = mergeSignals signalOpt;
              mode = (case modeOpt of None \<Rightarrow> ''auto'' | Some m \<Rightarrow> m);
              apiUrl = LinkHealthApi normalized mode timeoutMs;
              (fetched, started) = fetch net signal apiUrl;
              signal' = caller_aborted_after net signal apiUrl
          in (case fetched of
                Resolved resp \<Rightarrow>
                  if \<not> resp_ok resp then None
                  else (case resp_json_status resp of
                          None \<Rightarrow> None
                        | Some status \<Rightarrow>
                            if status = ''ok'' then Some Ok
                            else if status = ''dead'' then Some Dead
                            else None)
              | Rejected e \<Rightarrow> if isAbortError e then None else None,
              signal', started))"

text \<open>
  The body of the \<^verbatim>\<open>try\<close> around the HEAD request of the client's
  \<^verbatim>\<open>checkLinkHealth\<close>: \<open>Inl\<close> is a throw (a rejected fetch, or the
  \<^verbatim>\<open>Error("HEAD not allowed")\<close> on status 405), \<open>Inr\<close> a \<^verbatim>\<open>return\<close>.
\<close>

definition head_attempt :: "fetch_result \<Rightarrow> js_error + status" where
  "head_attempt fetched =
     (case fetched of
        Rejected e \<Rightarrow> Inl e
      | Resolved resp \<Rightarrow>
          let classified = classifyResponse resp in
          if classified \<noteq> Unknown then Inr classified
          else if resp_status resp = 405 then Inl (plainError ''HEAD not allowed'')
          else Inr Dead)"

text \<open>The \<^verbatim>\<open>try\<close> around the GET request together with its \<^verbatim>\<open>catch (e2)\<close>.\<close>

definition get_attempt :: "fetch_result \<Rightarrow> js_error + status" where
  "get_attempt fetched =
     (case (case fetched of
              Rejected e \<Rightarrow> Inl e
            | Resolved resp \<Rightarrow>
                let classified = classifyResponse resp in
                if classified \<noteq> Unknown then Inr classified else Inr Dead) of
        Inr s \<Rightarrow> Inr s
      | Inl e2 \<Rightarrow> if isAbortError e2 then Inr Dead else Inr Dead)"

text \<open>
  \<^verbatim>\<open>checkLinkHealth(url, {timeoutMs, signal})\<close> of the client. \<open>Inl\<close> would be a rejected
  promise; the second component lists the requests started, in order.
\<close>

definition checkLinkHealth ::
  "url_parser \<Rightarrow> network \<Rightarrow> string \<Rightarrow> int option \<Rightarrow> bool option
     \<Rightarrow> (js_error + status) \<times> request list" where
  "checkLinkHealth newURL net url timeoutOpt signalOpt =
     (case normalizeUrl newURL url of
        None \<Rightarrow> (Inr Dead, [])
      | Some normalized \<Rightarrow>
          let timeoutMs = (case timeoutOpt of None \<Rightarrow> 8000 | Some t \<Rightarrow> t);
              signal = mergeSignals signalOpt;
              (apiStatus, signal1, started1) =
                checkLinkHealthViaApi newURL net normalized (Some (min timeoutMs 4500))
                  (Some signal) (Some ''auto'')
          in (case apiStatus of
                Some s \<Rightarrow> (Inr s, started1)
              | None \<Rightarrow>
                  let (fetched, started2) = fetch net signal1 (Direct HEAD normalized)
                  in (case head_attempt fetched of
                        Inr s \<Rightarrow> (Inr s, started1 @ started2)
                      | Inl e \<Rightarrow>
                          if isAbortError e then (Inr Dead, started1 @ started2)
                          else
                            let (fetched2, started3) = fetch net signal1 (Direct GET normalized)
                            in (get_attempt fetched2, started1 @ started2 @ started3))))"

section \<open>Server (the Express application)\<close>

text \<open>
  What the server does to the outside world, in order: the abort timer it arms with its
  delay in milliseconds, the requests it starts, DNS lookups, and socket connects with
  port, host and the socket's timeout.
\<close>

datatype server_effect =
  AbortTimer real
  | Request request
  | DnsLookup string
  | SocketConnect int string real

text \<open>The object returned by the server's \<^verbatim>\<open>checkLinkHealth\<close>; absent members are \<open>None\<close>.\<close>

record http_result =
  hr_status :: status
  hr_httpStatus :: "int option"
  hr_finalUrl :: "string option"
  hr_error :: "string option"

text \<open>\<^verbatim>\<open>String(e?.message || e)\<close>: an error with an empty message prints as its name.\<close>

definition errorText :: "js_error \<Rightarrow> string" where
  "errorText e = (if err_message e \<noteq> [] then err_message e else err_name e)"

text \<open>
  The server's \<^verbatim>\<open>checkLinkHealth(urlToCheck, {timeoutMs})\<close>. The inner \<^verbatim>\<open>try\<close> holds the
  HEAD request, its \<^verbatim>\<open>catch\<close> (which binds no error and tests nothing) calls fetch for
  the GET request under the same signal, and the outer \<^verbatim>\<open>catch\<close> turns what is thrown
  there into a result.
\<close>

definition server_checkLinkHealth ::
  "network \<Rightarrow> string \<Rightarrow> real \<Rightarrow> http_result \<times> server_effect list" where
  "server_checkLinkHealth net urlToCheck timeoutMs =
     (let (fetched, started1) = fetch net False (Direct HEAD urlToCheck);
          signal1 = aborted_after net False (Direct HEAD urlToCheck);
          inner =
            (case fetched of
               Rejected e \<Rightarrow> Inl e
             | Resolved resp \<Rightarrow>
                 let status = classifyStatus (resp_status resp) in
                 if status \<noteq> Unknown then
                   Inr \<lparr>hr_status = status, hr_httpStatus = Some (resp_status resp),
                        hr_finalUrl = Some (resp_url resp), hr_error = None\<rparr>
                 else if resp_status resp = 405 then Inl (plainError ''HEAD not allowed'')
                 else
                   Inr \<lparr>hr_status = Unknown, hr_httpStatus = Some (resp_status resp),
                        hr_finalUrl = Some (resp_url resp), hr_error = None\<rparr>)
      in (case inner of
            Inr r \<Rightarrow> (r, AbortTimer timeoutMs # map Request started1)
          | Inl _ \<Rightarrow>
              let (fetched2, started2) = fetch net signal1 (Direct GET urlToCheck)
              in ((case fetched2 of
                     Resolved resp \<Rightarrow>
                       \<lparr>hr_status = classifyStatus (resp_status resp),
                        hr_httpStatus = Some (resp_status resp),
                        hr_finalUrl = Some (resp_url resp), hr_error = None\<rparr>
                   | Rejected e \<Rightarrow>
                       if err_name e = ''AbortError'' then
                         \<lparr>hr_status = Unknown, hr_httpStatus = None, hr_finalUrl = None,
                          hr_error = Some ''timeout''\<rparr>
                       else
                         \<lparr>hr_status = Dead, hr_httpStatus = None, hr_finalUrl = None,
                          hr_error = Some (errorText e)\<rparr>),
                  AbortTimer timeoutMs # map Request (started1 @ started2))))"

text \<open>
  The platform under \<^verbatim>\<open>checkTcpConnectivity\<close>: \<^verbatim>\<open>dns.lookup\<close> resolves (\<open>None\<close>) or
  rejects with an error, and a socket told to connect to a port and host with a timeout
  connects, emits \<^verbatim>\<open>timeout\<close>, or emits \<^verbatim>\<open>error\<close>.
\<close>

datatype connect_outcome = Connected | SocketTimeout | SocketError js_error

record tcp_platform =
  dns_lookup :: "string \<Rightarrow> js_error option"
  socket_connect :: "int \<Rightarrow> string \<Rightarrow> real \<Rightarrow> connect_outcome"

record tcp_result =
  tr_status :: status
  tr_port :: "int option"
  tr_error :: "string option"

definition checkTcpConnectivity ::
  "url_parser \<Rightarrow> tcp_platform \<Rightarrow> string \<Rightarrow> real \<Rightarrow> tcp_result \<times> server_effect list" where
  "checkTcpConnectivity newURL tcp targetUrl timeoutMs =
     (let (attempt, effects) =
            (case newURL targetUrl of
               None \<Rightarrow> (Inl (typeError ''Invalid URL''), [])
             | Some u \<Rightarrow>
                 let hostname = url_hostname u;
                     port = (case url_port u of
                               Some p \<Rightarrow> p
                             | None \<Rightarrow> if url_protocol u = ''https:'' then 443 else 80)
                 in (case dns_lookup tcp hostname of
                       Some e \<Rightarrow> (Inl e, [DnsLookup hostname])
                     | None \<Rightarrow>
                         (case socket_connect tcp port hostname timeoutMs of
                            Connected \<Rightarrow> Inr port
                          | SocketTimeout \<Rightarrow> Inl (plainError ''timeout'')
                          | SocketError e \<Rightarrow> Inl e,
                          [DnsLookup hostname, SocketConnect port hostname timeoutMs])))
      in (case attempt of
            Inr port \<Rightarrow> \<lparr>tr_status = Ok, tr_port = Some port, tr_error = None\<rparr>
          | Inl e \<Rightarrow>
              if err_code e = ''ENOTFOUND'' \<or> err_code e = ''EAI_AGAIN'' then
                \<lparr>tr_status = Dead, tr_port = None, tr_error = Some ''dns''\<rparr>
              else if err_message e = ''timeout'' then
                \<lparr>tr_status = Dead, tr_port = None, tr_error = Some ''timeout''\<rparr>
              else \<lparr>tr_status = Dead, tr_port = None, tr_error = Some (errorText e)\<rparr>,
          effects))"

text \<open>
  The query of \<^verbatim>\<open>GET /api/link-health\<close>: \<^verbatim>\<open>url\<close> and \<^verbatim>\<open>mode\<close> as strings when
  present, and the number that \<^verbatim>\<open>Number(req.query.timeoutMs || '')\<close> evaluates to.
\<close>

datatype jsnum = Finite real | NotFinite

record link_health_query =
  q_url :: "string option"
  q_mode :: "string option"
  q_timeoutMs :: jsnum

text \<open>\<^verbatim>\<open>String.prototype.toLowerCase\<close> on code units below 256.\<close>

definition toLowerCase :: "string \<Rightarrow> string" where
  "toLowerCase =
     map (\<lambda>c. let n = (of_char c :: nat) in
               if (65 \<le> n \<and> n \<le> 90) \<or> (192 \<le> n \<and> n \<le> 222 \<and> n \<noteq> 215)
               then char_of (n + 32) else c)"

text \<open>The JSON bodies the endpoint sends; absent members are \<open>None\<close>.\<close>

record link_health_body =
  b_url :: string
  b_mode :: string
  b_status :: status
  b_httpStatus :: "int option"
  b_finalUrl :: "string option"
  b_port :: "int option"
  b_error :: "string option"
  b_httpFallback :: "http_result option"

datatype reply = Status400 string | Json200 link_health_body

text \<open>\<^verbatim>\<open>{ url, mode, ...tcp }\<close> and \<^verbatim>\<open>{ url, mode, ...httpResult }\<close>.\<close>

definition tcp_body :: "string \<Rightarrow> string \<Rightarrow> tcp_result \<Rightarrow> http_result option \<Rightarrow> link_health_body" where
  "tcp_body url mode tcp fallback =
     \<lparr>b_url = url, b_mode = mode, b_status = tr_status tcp, b_httpStatus = None,
      b_finalUrl = None, b_port = tr_port tcp, b_error = tr_error tcp,
      b_httpFallback = fallback\<rparr>"

definition http_body :: "string \<Rightarrow> string \<Rightarrow> http_result \<Rightarrow> link_health_body" where
  "http_body url mode httpResult =
     \<lparr>b_url = url, b_mode = mode, b_status = hr_status httpResult,
      b_httpStatus = hr_httpStatus httpResult, b_finalUrl = hr_finalUrl httpResult,
      b_port = None, b_error = hr_error httpResult, b_httpFallback = None\<rparr>"

text \<open>
  \<^verbatim>\<open>Number.isFinite(timeoutMsParam) && timeoutMsParam > 0 ? timeoutMsParam : 6000\<close>.
\<close>

definition requested_timeout :: "jsnum \<Rightarrow> real" where
  "requested_timeout timeoutMsParam =
     (case timeoutMsParam of
        Finite t \<Rightarrow> if t > 0 then t else 6000
      | NotFinite \<Rightarrow> 6000)"

text \<open>The handler of \<^verbatim>\<open>app.get('/api/link-health', ...)\<close>.\<close>

definition link_health_endpoint ::
  "url_parser \<Rightarrow> network \<Rightarrow> tcp_platform \<Rightarrow> link_health_query
     \<Rightarrow> reply \<times> server_effect list" where
  "link_health_endpoint newURL net tcp query =
     (case normalizeUrl newURL (case q_url query of None \<Rightarrow> [] | Some t \<Rightarrow> t) of
        None \<Rightarrow> (Status400 ''Invalid url'', [])
      | Some normalized \<Rightarrow>
          let mode = toLowerCase (case q_mode query of
                                    None \<Rightarrow> ''auto''
                                  | Some m \<Rightarrow> if m = [] then ''auto'' else m);
              timeoutMs = requested_timeout (q_timeoutMs query)
          in if mode = ''tcp'' \<or> mode = ''ping'' then
               let (tcpr, effects) = checkTcpConnectivity newURL tcp normalized (min timeoutMs 3000)
               in (Json200 (tcp_body normalized ''tcp'' tcpr None), effects)
             else
               let (httpResult, effects1) = server_checkLinkHealth net normalized timeoutMs
               in if mode = ''http'' then
                    (Json200 (http_body normalized ''http'' httpResult), effects1)
                  else if hr_status httpResult = Unknown then
                    let (tcpr, effects2) =
                          checkTcpConnectivity newURL tcp normalized (min timeoutMs 3000)
                    in (Json200 (tcp_body normalized ''auto'' tcpr (Some httpResult)),
                        effects1 @ effects2)
                  else (Json200 (http_body normalized ''auto'' httpResult), effects1))"

section \<open>Client batch scheduler (linkValidator.ts)\<close>

record bookmark =
  bm_id :: string
  bm_url :: string

text \<open>\<^verbatim>\<open>LinkCheckResult\<close>; the optional \<^verbatim>\<open>error\<close> member is never set by this code.\<close>

record LinkCheckResult =
  res_id :: string
  res_url :: string
  res_status :: status

text \<open>
  \<^verbatim>\<open>BatchCheckOptions\<close>, every member optional. \<open>opt_signal\<close> is \<open>Some a\<close> for a signal
  whose \<^verbatim>\<open>aborted\<close> flag is \<open>a\<close> when \<^verbatim>\<open>batchCheckLinks\<close> is called.
\<close>

record BatchCheckOptions =
  opt_concurrency :: "int option"
  opt_timeoutMs :: "int option"
  opt_signal :: "bool option"
  opt_cacheTtlMs :: "int option"
  opt_forceRefresh :: "bool option"

record cache_entry =
  ce_status :: status
  ce_checkedAt :: int

text \<open>
  The entries of the cache object and the \<^verbatim>\<open>resultsById\<close> map are association lists;
  \<^verbatim>\<open>m[k] = v\<close> and \<^verbatim>\<open>m.set(k, v)\<close> are \<^const>\<open>AList.update\<close> (an existing key keeps its place, a new one
  goes to the end), a lookup is \<^const>\<open>map_of\<close>, and \<^verbatim>\<open>m.size\<close> is the length.
\<close>

type_synonym cache_map = "(string \<times> cache_entry) list"

text \<open>
  \<^verbatim>\<open>localStorage\<close>, as far as the key \<^verbatim>\<open>linkHealthCache:v2\<close> goes. The item is absent or
  holds a text, which is given by what \<^verbatim>\<open>JSON.parse\<close> makes of it: a text that is empty,
  does not parse, or parses to a value that is falsy or not of type \<^verbatim>\<open>object\<close>; the JSON of
  an array; or the JSON of an object, whose properties are taken to be cache entries.
  \<open>ls_getItem_throws\<close> and \<open>ls_setItem_throws\<close> say that the call of this name throws
  (storage disabled; quota exceeded). \<open>ls_setItem_calls\<close> lists, for the statements below,
  the values that \<^verbatim>\<open>setItem\<close> has been called with, in the order of the calls.
\<close>

datatype stored = NotAnObject | JsonArray | CacheObject cache_map

record local_storage =
  ls_item :: "stored option"
  ls_getItem_throws :: bool
  ls_setItem_throws :: bool
  ls_setItem_calls :: "stored list"

text \<open>
  The value of the variable \<^verbatim>\<open>cache\<close>: an object, or an array when the stored text was the
  JSON of one, with its properties named by strings. An array read from the storage has
  none of these (the elements are indexed), and \<^verbatim>\<open>cache[url] = entry\<close> adds one to either.
\<close>

record cache_object =
  co_array :: bool
  co_entries :: cache_map

definition readCache :: "local_storage \<Rightarrow> cache_object" where
  "readCache ls =
     (if ls_getItem_throws ls then \<lparr>co_array = False, co_entries = []\<rparr>
      else (case ls_item ls of
              None \<Rightarrow> \<lparr>co_array = False, co_entries = []\<rparr>
            | Some NotAnObject \<Rightarrow> \<lparr>co_array = False, co_entries = []\<rparr>
            | Some JsonArray \<Rightarrow> \<lparr>co_array = True, co_entries = []\<rparr>
            | Some (CacheObject parsed) \<Rightarrow> \<lparr>co_array = False, co_entries = parsed\<rparr>))"

text \<open>
  \<^verbatim>\<open>JSON.stringify\<close>, again up to \<^verbatim>\<open>JSON.parse\<close>: of an array it writes the elements only, so
  the properties named by strings are left out; of an object it writes the properties.
\<close>

definition stringify :: "cache_object \<Rightarrow> stored" where
  "stringify c = (if co_array c then JsonArray else CacheObject (co_entries c))"

text \<open>
  \<^verbatim>\<open>writeCache\<close>: one call of \<^verbatim>\<open>setItem\<close>; the item is replaced unless the call throws, and
  the exception is swallowed.
\<close>

definition writeCache :: "cache_object \<Rightarrow> local_storage \<Rightarrow> local_storage" where
  "writeCache c ls =
     ls\<lparr>ls_item := (if ls_setItem_throws ls then ls_item ls else Some (stringify c)),
        ls_setItem_calls := ls_setItem_calls ls @ [stringify c]\<rparr>"

text \<open>
  The first loop of \<^verbatim>\<open>batchCheckLinks\<close>, one bookmark at a time, on the pair of
  \<^verbatim>\<open>resultsById\<close> and \<^verbatim>\<open>queue\<close>.
\<close>

definition partition_step ::
  "url_parser \<Rightarrow> cache_map \<Rightarrow> int \<Rightarrow> int \<Rightarrow> bool
     \<Rightarrow> (string \<times> LinkCheckResult) list \<times> bookmark list \<Rightarrow> bookmark
     \<Rightarrow> (string \<times> LinkCheckResult) list \<times> bookmark list" where
  "partition_step newURL cache now cacheTtlMs forceRefresh acc b =
     (case normalizeUrl newURL (bm_url b) of
        None \<Rightarrow>
          (AList.update (bm_id b)
             \<lparr>res_id = bm_id b, res_url = bm_url b, res_status = Dead\<rparr> (fst acc), snd acc)
      | Some normalized \<Rightarrow>
          (case map_of cache normalized of
             Some cached \<Rightarrow>
               if \<not> forceRefresh \<and> now - ce_checkedAt cached \<le> cacheTtlMs then
                 (AList.update (bm_id b)
                    \<lparr>res_id = bm_id b, res_url = bm_url b, res_status = ce_status cached\<rparr>
                    (fst acc), snd acc)
               else (fst acc, snd acc @ [\<lparr>bm_id = bm_id b, bm_url = normalized\<rparr>])
           | None \<Rightarrow> (fst acc, snd acc @ [\<lparr>bm_id = bm_id b, bm_url = normalized\<rparr>])))"

definition partition_targets ::
  "url_parser \<Rightarrow> cache_map \<Rightarrow> int \<Rightarrow> int \<Rightarrow> bool \<Rightarrow> bookmark list
     \<Rightarrow> (string \<times> LinkCheckResult) list \<times> bookmark list" where
  "partition_targets newURL cache now cacheTtlMs forceRefresh bookmarks =
     foldl (partition_step newURL cache now cacheTtlMs forceRefresh) ([], []) bookmarks"

text \<open>
  The workers are asynchronous functions on one thread: a worker runs until its
  \<^verbatim>\<open>await checkLinkHealth(...)\<close>, and when that check has settled it runs on to its next
  \<^verbatim>\<open>await\<close> or to its end. Which in-flight check settles next, and whether the external
  signal aborts before that, is the environment's choice, given by a schedule: at the
  \<open>k\<close>-th settlement \<open>sch_pick k\<close> selects among the checks in flight and \<open>sch_abort k\<close>
  says whether the signal fires first; \<open>sch_net j\<close> is the network as the check of queue
  item \<open>j\<close> meets it (an abort of the external signal during a check shows there as
  \<open>Cancelled\<close>) and \<open>sch_now j\<close> is \<^verbatim>\<open>Date.now()\<close> when that check has settled.
\<close>

record schedule =
  sch_pick :: "nat \<Rightarrow> nat"
  sch_abort :: "nat \<Rightarrow> bool"
  sch_net :: "nat \<Rightarrow> network"
  sch_now :: "nat \<Rightarrow> int"

text \<open>What the closure \<^verbatim>\<open>worker\<close> reads and never changes.\<close>

record run_ctx =
  rc_newURL :: url_parser
  rc_sched :: schedule
  rc_queue :: "bookmark list"
  rc_total :: nat
  rc_timeoutMs :: int
  rc_signal :: bool
  rc_onProgress :: bool

text \<open>
  The mutable state of a run: the variables \<^verbatim>\<open>cursor\<close>, \<^verbatim>\<open>resultsById\<close>, \<^verbatim>\<open>cache\<close>,
  \<^verbatim>\<open>processed\<close>; the calls made to \<^verbatim>\<open>onProgress\<close>; for each worker that is waiting for a
  check, the queue index and item of that check; the \<^verbatim>\<open>aborted\<close> flag of the external
  signal; the storage; and, for the statements below, the number of workers started, the
  queue indices of the checks that have settled (in that order) with the requests they
  started, the number of settlements, and the error of a rejected worker if there is one.
\<close>

record batch_state =
  cursor :: nat
  resultsById :: "(string \<times> LinkCheckResult) list"
  cache :: cache_object
  processed :: nat
  progress :: "(nat \<times> nat) list"
  inflight :: "(nat \<times> bookmark) list"
  aborted :: bool
  storage :: local_storage
  launched :: nat
  checked :: "nat list"
  requests :: "request list"
  steps :: nat
  rejected :: "js_error option"

text \<open>
  The head of the worker's loop, up to the \<^verbatim>\<open>await\<close>: leave if the signal is aborted,
  take \<^verbatim>\<open>cursor++\<close>, leave if the queue is used up, else start the check of that item.
\<close>

definition claim_next :: "run_ctx \<Rightarrow> batch_state \<Rightarrow> batch_state \<times> (nat \<times> bookmark) option" where
  "claim_next C st =
     (if aborted st then (st, None)
      else let index = cursor st; st' = st\<lparr>cursor := index + 1\<rparr> in
        if index \<ge> length (rc_queue C) then (st', None)
        else (st', Some (index, rc_queue C ! index)))"

text \<open>\<^verbatim>\<open>Array.from({ length: concurrency }, () => worker())\<close>: the workers start in turn.\<close>

fun launch :: "run_ctx \<Rightarrow> nat \<Rightarrow> batch_state \<Rightarrow> batch_state" where
  "launch C 0 st = st"
| "launch C (Suc n) st =
     (case claim_next C st of
        (st', None) \<Rightarrow> launch C n (st'\<lparr>launched := launched st' + 1\<rparr>)
      | (st', Some job) \<Rightarrow>
          launch C n (st'\<lparr>launched := launched st' + 1, inflight := inflight st' @ [job]\<rparr>))"

text \<open>
  The statements of the loop body after the \<^verbatim>\<open>await\<close>: the result and the cache entry
  are stored, \<^verbatim>\<open>processed\<close> is incremented and \<^verbatim>\<open>onProgress\<close> is called.
\<close>

definition record_result ::
  "run_ctx \<Rightarrow> nat \<Rightarrow> bookmark \<Rightarrow> status \<Rightarrow> request list \<Rightarrow> batch_state \<Rightarrow> batch_state" where
  "record_result C index item status started st =
     st\<lparr>resultsById :=
          AList.update (bm_id item)
            \<lparr>res_id = bm_id item, res_url = bm_url item, res_status = status\<rparr>
            (resultsById st),
        cache :=
          (cache st)\<lparr>co_entries :=
            AList.update (bm_url item)
              \<lparr>ce_status = status, ce_checkedAt = sch_now (rc_sched C) index\<rparr>
              (co_entries (cache st))\<rparr>,
        processed := processed st + 1,
        progress :=
          (if rc_onProgress C then progress st @ [(processed st + 1, rc_total C)]
           else progress st),
        checked := checked st @ [index],
        requests := requests st @ started\<rparr>"

text \<open>
  The \<open>i\<close>-th waiting worker goes on once its check has settled: the rest of the loop
  body, then the head of the next iteration. A check that rejected would reject the worker.
\<close>

definition resume :: "run_ctx \<Rightarrow> nat \<Rightarrow> batch_state \<Rightarrow> batch_state" where
  "resume C i st =
     (let (index, item) = inflight st ! i;
          others = take i (inflight st) @ drop (Suc i) (inflight st);
          (outcome, started) =
            checkLinkHealth (rc_newURL C) (sch_net (rc_sched C) index) (bm_url item)
              (Some (rc_timeoutMs C)) (if rc_signal C then Some False else None)
      in (case outcome of
            Inl e \<Rightarrow>
              st\<lparr>inflight := others, rejected := Some e, requests := requests st @ started\<rparr>
          | Inr status \<Rightarrow>
              (case claim_next C (record_result C index item status started st) of
                 (st2, None) \<Rightarrow> st2\<lparr>inflight := others\<rparr>
               | (st2, Some job) \<Rightarrow> st2\<lparr>inflight := (inflight st)[i := job]\<rparr>)))"

text \<open>One settlement, as the schedule has it.\<close>

definition sched_step :: "run_ctx \<Rightarrow> batch_state \<Rightarrow> batch_state" where
  "sched_step C st =
     (let k = steps st;
          st1 = (if rc_signal C \<and> sch_abort (rc_sched C) k then st\<lparr>aborted := True\<rparr> else st);
          i = sch_pick (rc_sched C) k mod length (inflight st1)
      in (resume C i st1)\<lparr>steps := k + 1\<rparr>)"

lemma claim_next_measure:
  "claim_next C st = (st', j) \<Longrightarrow>
   (length (rc_queue C) - cursor st') + (case j of None \<Rightarrow> 0 | Some _ \<Rightarrow> 1)
     \<le> length (rc_queue C) - cursor st"
  by (auto simp: claim_next_def Let_def split: if_splits)

lemma claim_next_inflight: "claim_next C st = (st', j) \<Longrightarrow> inflight st' = inflight st"
  by (auto simp: claim_next_def Let_def split: if_splits)

lemma record_result_cursor: "cursor (record_result C index item status started st) = cursor st"
  by (simp add: record_result_def)

lemma resume_measure:
  assumes "i < length (inflight st)"
  shows "length (inflight (resume C i st)) + (length (rc_queue C) - cursor (resume C i st))
           < length (inflight st) + (length (rc_queue C) - cursor st)"
proof -
  obtain index item where job: "inflight st ! i = (index, item)"
    by (cases "inflight st ! i")
  obtain outcome started where chk:
    "checkLinkHealth (rc_newURL C) (sch_net (rc_sched C) index) (bm_url item)
       (Some (rc_timeoutMs C)) (if rc_signal C then Some False else None) = (outcome, started)"
    by (cases "checkLinkHealth (rc_newURL C) (sch_net (rc_sched C) index) (bm_url item)
       (Some (rc_timeoutMs C)) (if rc_signal C then Some False else None)")
  have others: "length (take i (inflight st) @ drop (Suc i) (inflight st)) + 1
                  = length (inflight st)"
    using assms by simp
  show ?thesis
  proof (cases outcome)
    case (Inl e)
    then show ?thesis
      using others job chk by (simp add: resume_def)
  next
    case (Inr status)
    obtain st2 j where cn: "claim_next C (record_result C index item status started st) = (st2, j)"
      by (cases "claim_next C (record_result C index item status started st)")
    have m: "(length (rc_queue C) - cursor st2) + (case j of None \<Rightarrow> 0 | Some _ \<Rightarrow> 1)
               \<le> length (rc_queue C) - cursor st"
      using claim_next_measure [OF cn] by (simp add: record_result_cursor)
    have r: "resume C i st =
               (case j of None \<Rightarrow> st2\<lparr>inflight := take i (inflight st) @ drop (Suc i) (inflight st)\<rparr>
                | Some job \<Rightarrow> st2\<lparr>inflight := (inflight st)[i := job]\<rparr>)"
      using job chk Inr cn by (simp add: resume_def)
    show ?thesis
      using m others assms by (cases j) (simp_all add: r)
  qed
qed

lemma sched_step_measure:
  assumes "inflight st \<noteq> []"
  shows "length (inflight (sched_step C st)) + (length (rc_queue C) - cursor (sched_step C st))
           < length (inflight st) + (length (rc_queue C) - cursor st)"
proof -
  define st1 where
    "st1 = (if rc_signal C \<and> sch_abort (rc_sched C) (steps st) then st\<lparr>aborted := True\<rparr> else st)"
  have same: "inflight st1 = inflight st" "cursor st1 = cursor st"
    by (simp_all add: st1_def)
  have lt: "sch_pick (rc_sched C) (steps st) mod length (inflight st1) < length (inflight st1)"
    using assms same by simp
  have "sched_step C st =
          (resume C (sch_pick (rc_sched C) (steps st) mod length (inflight st1)) st1)
            \<lparr>steps := steps st + 1\<rparr>"
    by (simp add: sched_step_def Let_def st1_def)
  then show ?thesis
    using resume_measure [OF lt, of C] same by simp
qed

text \<open>
  \<^verbatim>\<open>await Promise.all(...)\<close>: settlements go on until no worker waits any more, or a
  worker has rejected.
\<close>

function run :: "run_ctx \<Rightarrow> batch_state \<Rightarrow> batch_state" where
  "run C st =
     (if inflight st = [] \<or> rejected st \<noteq> None then st else run C (sched_step C st))"
  by pat_completeness auto
termination
  by (relation "measure (\<lambda>(C, st). length (inflight st) + (length (rc_queue C) - cursor st))")
     (auto simp: sched_step_measure)

declare run.simps [simp del]

text \<open>
  \<^verbatim>\<open>batchCheckLinks(bookmarks, onProgress, options)\<close>, in the order of the source. \<open>ls\<close> is
  the storage and \<open>now\<close> the value of \<^verbatim>\<open>Date.now()\<close> at the start; \<open>onProgress\<close> says
  whether a callback was passed.

  The number of workers, \<^verbatim>\<open>Math.max(1, Math.min(options?.concurrency ?? 20, total || 1))\<close>,
  for \<^verbatim>\<open>total\<close> \<open>= n\<close>.
\<close>

definition batch_concurrency :: "BatchCheckOptions \<Rightarrow> nat \<Rightarrow> int" where
  "batch_concurrency options n =
     max 1 (min (case opt_concurrency options of None \<Rightarrow> 20 | Some c \<Rightarrow> c)
                (if n = 0 then 1 else int n))"

text \<open>The first loop, over the cache read from the storage: \<^verbatim>\<open>resultsById\<close> and \<^verbatim>\<open>queue\<close>.\<close>

definition batch_partition ::
  "url_parser \<Rightarrow> local_storage \<Rightarrow> int \<Rightarrow> bookmark list \<Rightarrow> BatchCheckOptions
     \<Rightarrow> (string \<times> LinkCheckResult) list \<times> bookmark list" where
  "batch_partition newURL ls now bookmarks options =
     partition_targets newURL (co_entries (readCache ls)) now
       (case opt_cacheTtlMs options of None \<Rightarrow> 12 * 60 * 60 * 1000 | Some t \<Rightarrow> t)
       (case opt_forceRefresh options of None \<Rightarrow> False | Some f \<Rightarrow> f)
       bookmarks"

text \<open>What the workers read.\<close>

definition batch_ctx ::
  "url_parser \<Rightarrow> schedule \<Rightarrow> local_storage \<Rightarrow> int \<Rightarrow> bookmark list \<Rightarrow> bool
     \<Rightarrow> BatchCheckOptions \<Rightarrow> run_ctx" where
  "batch_ctx newURL sched ls now bookmarks onProgress options =
     \<lparr>rc_newURL = newURL, rc_sched = sched,
      rc_queue = snd (batch_partition newURL ls now bookmarks options),
      rc_total = length bookmarks,
      rc_timeoutMs = (case opt_timeoutMs options of None \<Rightarrow> 5000 | Some t \<Rightarrow> t),
      rc_signal = (opt_signal options \<noteq> None),
      rc_onProgress = onProgress\<rparr>"

text \<open>
  The state when the first loop is done, \<^verbatim>\<open>processed\<close> is set to
  \<^verbatim>\<open>resultsById.size\<close>, \<^verbatim>\<open>onProgress\<close> has been called for the first time and \<^verbatim>\<open>cursor\<close>
  is 0.
\<close>

definition batch_init ::
  "url_parser \<Rightarrow> local_storage \<Rightarrow> int \<Rightarrow> bookmark list \<Rightarrow> bool \<Rightarrow> BatchCheckOptions
     \<Rightarrow> batch_state" where
  "batch_init newURL ls now bookmarks onProgress options =
     (let total = length bookmarks;
          results0 = fst (batch_partition newURL ls now bookmarks options);
          processed0 = length results0
      in \<lparr>cursor = 0, resultsById = results0, cache = readCache ls, processed = processed0,
          progress = (if onProgress then [(processed0, total)] else []),
          inflight = [], aborted = mergeSignals (opt_signal options), storage = ls,
          launched = 0, checked = [], requests = [], steps = 0, rejected = None\<rparr>)"

text \<open>
  The whole function: the workers are started and run until all have left, the cache is
  written unless the signal is aborted, and the results are read off in the order of the
  input. The result is the value of the promise (\<open>Inl\<close> for a rejection) with the final
  state.
\<close>

definition batchCheckLinks ::
  "url_parser \<Rightarrow> schedule \<Rightarrow> local_storage \<Rightarrow> int \<Rightarrow> bookmark list \<Rightarrow> bool
     \<Rightarrow> BatchCheckOptions \<Rightarrow> (js_error + LinkCheckResult list) \<times> batch_state" where
  "batchCheckLinks newURL sched ls now bookmarks onProgress options =
     (let C = batch_ctx newURL sched ls now bookmarks onProgress options;
          concurrency = batch_concurrency options (length bookmarks);
          st1 = run C (launch C (nat concurrency)
                         (batch_init newURL ls now bookmarks onProgress options))
      in (case rejected st1 of
            Some e \<Rightarrow> (Inl e, st1)
          | None \<Rightarrow>
              let st2 = (if \<not> aborted st1
                         then st1\<lparr>storage := writeCache (cache st1) (storage st1)\<rparr> else st1)
              in (Inr (map (\<lambda>b. case map_of (resultsById st2) (bm_id b) of
                                   Some r \<Rightarrow> r
                                 | None \<Rightarrow> \<lparr>res_id = bm_id b, res_url = bm_url b,
                                            res_status = Dead\<rparr>) bookmarks),
                  st2)))"

section \<open>Notions for the statements about single checks\<close>

text \<open>
  The inputs C8 is about: the trimmed string is empty, or it is no http/https URL as it
  stands (it does not parse, or parses with another scheme) and does not parse with
  \<^verbatim>\<open>https://\<close> put in front either.
\<close>

definition invalid_input :: "url_parser \<Rightarrow> string \<Rightarrow> bool" where
  "invalid_input newURL url =
     (trim url = []
      \<or> ((case newURL (trim url) of
             None \<Rightarrow> True
           | Some u \<Rightarrow> url_protocol u \<noteq> ''http:'' \<and> url_protocol u \<noteq> ''https:'')
          \<and> newURL (''https://'' @ trim url) = None))"

section \<open>Notions for the statements about batch runs\<close>

text \<open>
  What the first loop does with one bookmark, as a value: \<open>Inl r\<close> when the bookmark is
  resolved without network work (invalid url, or a fresh cache entry unless a refresh is
  forced) with result \<open>r\<close>, \<open>Inr item\<close> when it is queued as \<open>item\<close>, which carries the
  normalized url.
\<close>

definition dispose ::
  "url_parser \<Rightarrow> cache_map \<Rightarrow> int \<Rightarrow> int \<Rightarrow> bool \<Rightarrow> bookmark \<Rightarrow> LinkCheckResult + bookmark" where
  "dispose newURL cm now cacheTtlMs forceRefresh b =
     (case normalizeUrl newURL (bm_url b) of
        None \<Rightarrow> Inl \<lparr>res_id = bm_id b, res_url = bm_url b, res_status = Dead\<rparr>
      | Some normalized \<Rightarrow>
          (case map_of cm normalized of
             None \<Rightarrow> Inr \<lparr>bm_id = bm_id b, bm_url = normalized\<rparr>
           | Some cached \<Rightarrow>
               if \<not> forceRefresh \<and> now - ce_checkedAt cached \<le> cacheTtlMs
               then Inl \<lparr>res_id = bm_id b, res_url = bm_url b, res_status = ce_status cached\<rparr>
               else Inr \<lparr>bm_id = bm_id b, bm_url = normalized\<rparr>))"

text \<open>The results resolved up front and the queue, for a list of bookmarks.\<close>

definition upfront_of :: "(bookmark \<Rightarrow> LinkCheckResult + bookmark) \<Rightarrow> bookmark list
    \<Rightarrow> (string \<times> LinkCheckResult) list" where
  "upfront_of d bs = map (\<lambda>b. (bm_id b, projl (d b))) (filter (\<lambda>b. isl (d b)) bs)"

definition queue_of :: "(bookmark \<Rightarrow> LinkCheckResult + bookmark) \<Rightarrow> bookmark list
    \<Rightarrow> bookmark list" where
  "queue_of d bs = map (\<lambda>b. projr (d b)) (filter (\<lambda>b. \<not> isl (d b)) bs)"

text \<open>The check that the worker makes for the queue item \<open>item\<close> at index \<open>index\<close>.\<close>

definition check_of :: "run_ctx \<Rightarrow> nat \<Rightarrow> bookmark \<Rightarrow> (js_error + status) \<times> request list" where
  "check_of C index item =
     checkLinkHealth (rc_newURL C) (sch_net (rc_sched C) index) (bm_url item)
       (Some (rc_timeoutMs C)) (if rc_signal C then Some False else None)"

text \<open>The status of the check of queue item \<open>j\<close>, and the result a worker records for it.\<close>

definition status_of :: "run_ctx \<Rightarrow> nat \<Rightarrow> status" where
  "status_of C j =
     (case fst (check_of C j (rc_queue C ! j)) of Inr s \<Rightarrow> s | Inl _ \<Rightarrow> Dead)"

definition recorded :: "run_ctx \<Rightarrow> nat \<Rightarrow> LinkCheckResult" where
  "recorded C j =
     \<lparr>res_id = bm_id (rc_queue C ! j), res_url = bm_url (rc_queue C ! j),
      res_status = status_of C j\<rparr>"

text \<open>One worker started: the head of its loop, written out by cases.\<close>

definition launch_step :: "run_ctx \<Rightarrow> batch_state \<Rightarrow> batch_state" where
  "launch_step C st =
     (if aborted st then st\<lparr>launched := launched st + 1\<rparr>
      else if length (rc_queue C) \<le> cursor st
      then st\<lparr>cursor := cursor st + 1, launched := launched st + 1\<rparr>
      else st\<lparr>cursor := cursor st + 1, launched := launched st + 1,
              inflight := inflight st @ [(cursor st, rc_queue C ! cursor st)]\<rparr>)"

text \<open>
  The state after the settlement of the check of \<open>(index, item)\<close>, which waits between the
  lists \<open>A\<close> and \<open>B\<close> of waiting workers, with status \<open>status\<close>: the loop body and the head
  of the next iteration, written out by cases.
\<close>

definition settled :: "run_ctx \<Rightarrow> batch_state \<Rightarrow> (nat \<times> bookmark) list \<Rightarrow> (nat \<times> bookmark) list
    \<Rightarrow> nat \<Rightarrow> bookmark \<Rightarrow> status \<Rightarrow> batch_state" where
  "settled C st A B index item status =
     (let R = record_result C index item status (snd (check_of C index item)) st in
      if aborted st then R\<lparr>inflight := A @ B\<rparr>
      else if length (rc_queue C) \<le> cursor st then R\<lparr>cursor := cursor st + 1, inflight := A @ B\<rparr>
      else R\<lparr>cursor := cursor st + 1,
             inflight := A @ (cursor st, rc_queue C ! cursor st) # B\<rparr>)"

text \<open>
  Invariants of a run. Counting: no worker has rejected; \<^verbatim>\<open>processed\<close> and the checks in
  flight add up to the results resolved up front (\<open>p0\<close>) and the queue items taken so far;
  the calls of \<^verbatim>\<open>onProgress\<close> are those for \<open>p0\<close>, \<open>p0 + 1\<close>, up to \<^verbatim>\<open>processed\<close>.
\<close>

definition inv_count :: "run_ctx \<Rightarrow> nat \<Rightarrow> batch_state \<Rightarrow> bool" where
  "inv_count C p0 st =
     (rejected st = None
      \<and> processed st + length (inflight st) = p0 + min (cursor st) (length (rc_queue C))
      \<and> progress st =
          (if rc_onProgress C then map (\<lambda>p. (p, rc_total C)) [p0..<Suc (processed st)] else [])
      \<and> length (checked st) + p0 = processed st)"

text \<open>As long as the signal is not aborted and queue items are left, some worker waits.\<close>

definition live :: "run_ctx \<Rightarrow> batch_state \<Rightarrow> bool" where
  "live C st = (aborted st \<or> length (rc_queue C) \<le> cursor st \<or> inflight st \<noteq> [])"

text \<open>
  The queue indices taken so far are those of the checks in flight and of the settled
  checks, each once; a waiting worker holds the queue item of its index.
\<close>

definition inv_jobs :: "run_ctx \<Rightarrow> batch_state \<Rightarrow> bool" where
  "inv_jobs C st =
     ((\<forall>(j, item) \<in> set (inflight st). item = rc_queue C ! j)
      \<and> set (checked st) \<union> fst ` set (inflight st)
          = {j. j < cursor st \<and> j < length (rc_queue C)}
      \<and> distinct (map fst (inflight st) @ checked st))"

text \<open>
  \<^verbatim>\<open>resultsById\<close> holds the recorded result of every settled check under its id and is
  unchanged elsewhere; the cache has an entry for the url of every settled check; the
  requests are those of the settled checks.
\<close>

definition inv_results ::
  "run_ctx \<Rightarrow> (string \<times> LinkCheckResult) list \<Rightarrow> batch_state \<Rightarrow> bool" where
  "inv_results C results0 st =
     ((\<forall>j \<in> set (checked st). map_of (resultsById st) (bm_id (rc_queue C ! j))
          = Some (recorded C j))
      \<and> (\<forall>k. k \<notin> (\<lambda>j. bm_id (rc_queue C ! j)) ` set (checked st)
            \<longrightarrow> map_of (resultsById st) k = map_of results0 k)
      \<and> (\<forall>j \<in> set (checked st). \<exists>e. map_of (co_entries (cache st)) (bm_url (rc_queue C ! j)) = Some e)
      \<and> requests st = concat (map (\<lambda>j. snd (check_of C j (rc_queue C ! j))) (checked st)))"

text \<open>
  The properties of the cache object after the checks of the queue indices \<open>js\<close> have
  settled in this order, from the properties \<open>entries\<close>: each check has stored its status
  and the time of its settlement under the url of its queue item.
\<close>

definition entries_after :: "run_ctx \<Rightarrow> nat list \<Rightarrow> cache_map \<Rightarrow> cache_map" where
  "entries_after C js entries =
     fold (\<lambda>j. AList.update (bm_url (rc_queue C ! j))
                 \<lparr>ce_status = status_of C j, ce_checkedAt = sch_now (rc_sched C) j\<rparr>)
       js entries"

text \<open>The cache object is the one read at the start with the entries of the settled checks.\<close>

definition inv_cache :: "run_ctx \<Rightarrow> cache_object \<Rightarrow> batch_state \<Rightarrow> bool" where
  "inv_cache C c0 st =
     (cache st = c0\<lparr>co_entries := entries_after C (checked st) (co_entries c0)\<rparr>)"

text \<open>Every entry of \<^verbatim>\<open>resultsById\<close> is stored under its own id.\<close>

definition inv_keys :: "(string \<times> LinkCheckResult) list \<Rightarrow> bool" where
  "inv_keys al = (\<forall>k r. map_of al k = Some r \<longrightarrow> res_id r = k)"

text \<open>All of these, with the storage and the number of workers started.\<close>

definition run_inv ::
  "run_ctx \<Rightarrow> (string \<times> LinkCheckResult) list \<Rightarrow> local_storage \<Rightarrow> nat \<Rightarrow> batch_state \<Rightarrow> bool" where
  "run_inv C results0 ls n st =
     (inv_count C (length results0) st \<and> inv_jobs C st \<and> storage st = ls \<and> launched st = n
      \<and> inv_cache C (readCache ls) st
      \<and> (distinct (map bm_id (rc_queue C)) \<longrightarrow> inv_results C results0 st))"

text \<open>The entry that stands for a target with no recorded result.\<close>

definition placeholder :: "bookmark \<Rightarrow> LinkCheckResult" where
  "placeholder b = \<lparr>res_id = bm_id b, res_url = bm_url b, res_status = Dead\<rparr>"

text \<open>\<open>dispose\<close> with the cache, lifetime and refresh flag that \<open>batchCheckLinks\<close> uses.\<close>

definition batch_dispose ::
  "url_parser \<Rightarrow> local_storage \<Rightarrow> int \<Rightarrow> BatchCheckOptions \<Rightarrow> bookmark
     \<Rightarrow> LinkCheckResult + bookmark" where
  "batch_dispose newURL ls now options =
     dispose newURL (co_entries (readCache ls)) now
       (case opt_cacheTtlMs options of None \<Rightarrow> 12 * 60 * 60 * 1000 | Some t \<Rightarrow> t)
       (case opt_forceRefresh options of None \<Rightarrow> False | Some f \<Rightarrow> f)"

section \<open>Example inputs\<close>

text \<open>A URL parser that knows a handful of strings, as the WHATWG parser reads them.\<close>

definition example_newURL :: url_parser where
  "example_newURL = map_of
     [(''https://a.example/'',
       \<lparr>url_protocol = ''https:'', url_href = ''https://a.example/'',
        url_hostname = ''a.example'', url_port = None\<rparr>),
      (''https://a.example'',
       \<lparr>url_protocol = ''https:'', url_href = ''https://a.example/'',
        url_hostname = ''a.example'', url_port = None\<rparr>),
      (''https://b.example/'',
       \<lparr>url_protocol = ''https:'', url_href = ''https://b.example/'',
        url_hostname = ''b.example'', url_port = None\<rparr>),
      (''https://b.example'',
       \<lparr>url_protocol = ''https:'', url_href = ''https://b.example/'',
        url_hostname = ''b.example'', url_port = None\<rparr>),
      (''ftp://a.example/'',
       \<lparr>url_protocol = ''ftp:'', url_href = ''ftp://a.example/'',
        url_hostname = ''a.example'', url_port = None\<rparr>)]"

text \<open>Networks: the server API answers with a status; or it is down and HEAD hangs.\<close>

definition api_says :: "string \<Rightarrow> network" where
  "api_says s req =
     (case req of
        LinkHealthApi _ _ _ \<Rightarrow>
          Responds \<lparr>resp_type = ''basic'', resp_status = 200, resp_url = [],
                    resp_json_status = Some s\<rparr>
      | Direct _ _ \<Rightarrow> Fails ''Failed to fetch'')"

definition head_hangs :: network where
  "head_hangs req =
     (case req of
        LinkHealthApi _ _ _ \<Rightarrow> Fails ''Failed to fetch''
      | Direct HEAD _ \<Rightarrow> TimedOut
      | Direct GET _ \<Rightarrow>
          Responds \<lparr>resp_type = ''basic'', resp_status = 200, resp_url = [],
                    resp_json_status = None\<rparr>)"

definition status_100 :: network where
  "status_100 req =
     Responds \<lparr>resp_type = ''basic'', resp_status = 100, resp_url = ''https://a.example/'',
               resp_json_status = None\<rparr>"

definition status_404 :: network where
  "status_404 req =
     Responds \<lparr>resp_type = ''basic'', resp_status = 404, resp_url = ''https://a.example/'',
               resp_json_status = None\<rparr>"

definition example_tcp :: tcp_platform where
  "example_tcp = \<lparr>dns_lookup = (\<lambda>h. None), socket_connect = (\<lambda>p h t. Connected)\<rparr>"

text \<open>Options, storages, bookmarks and schedules for runs of the batch scheduler.\<close>

definition no_options :: BatchCheckOptions where
  "no_options = \<lparr>opt_concurrency = None, opt_timeoutMs = None, opt_signal = None,
     opt_cacheTtlMs = None, opt_forceRefresh = None\<rparr>"

definition one_worker_with_signal :: BatchCheckOptions where
  "one_worker_with_signal = \<lparr>opt_concurrency = Some 1, opt_timeoutMs = None,
     opt_signal = Some False, opt_cacheTtlMs = None, opt_forceRefresh = None\<rparr>"

definition empty_storage :: local_storage where
  "empty_storage =
     \<lparr>ls_item = None, ls_getItem_throws = False, ls_setItem_throws = False,
      ls_setItem_calls = []\<rparr>"

definition warm_storage :: local_storage where
  "warm_storage =
     \<lparr>ls_item = Some (CacheObject
        [(''https://a.example/'', \<lparr>ce_status = Ok, ce_checkedAt = 900\<rparr>),
         (''https://b.example/'', \<lparr>ce_status = Dead, ce_checkedAt = 950\<rparr>)]),
      ls_getItem_throws = False, ls_setItem_throws = False, ls_setItem_calls = []\<rparr>"

text \<open>
  A storage whose item is the JSON of an array, and one whose item is unreadable text and
  whose \<^verbatim>\<open>setItem\<close> throws.
\<close>

definition array_storage :: local_storage where
  "array_storage =
     \<lparr>ls_item = Some JsonArray, ls_getItem_throws = False, ls_setItem_throws = False,
      ls_setItem_calls = []\<rparr>"

definition quota_storage :: local_storage where
  "quota_storage =
     \<lparr>ls_item = Some NotAnObject, ls_getItem_throws = False, ls_setItem_throws = True,
      ls_setItem_calls = []\<rparr>"

definition five_bookmarks :: "bookmark list" where
  "five_bookmarks =
     [\<lparr>bm_id = ''1'', bm_url = ''https://a.example''\<rparr>,
      \<lparr>bm_id = ''2'', bm_url = ''https://b.example''\<rparr>,
      \<lparr>bm_id = ''3'', bm_url = ''https://a.example/''\<rparr>,
      \<lparr>bm_id = ''4'', bm_url = ''https://b.example/''\<rparr>,
      \<lparr>bm_id = ''5'', bm_url = ''https://a.example''\<rparr>]"

text \<open>Bookmarks that share the id \<open>x\<close>: two valid ones, and an invalid and a valid one.\<close>

definition twin_bookmarks :: "bookmark list" where
  "twin_bookmarks =
     [\<lparr>bm_id = ''x'', bm_url = ''https://a.example''\<rparr>,
      \<lparr>bm_id = ''x'', bm_url = ''https://b.example''\<rparr>,
      \<lparr>bm_id = ''y'', bm_url = ''https://a.example/''\<rparr>]"

definition shared_id_bookmarks :: "bookmark list" where
  "shared_id_bookmarks =
     [\<lparr>bm_id = ''x'', bm_url = ''not a url!!''\<rparr>,
      \<lparr>bm_id = ''x'', bm_url = ''https://a.example''\<rparr>,
      \<lparr>bm_id = ''y'', bm_url = ''https://b.example''\<rparr>]"

definition three_bookmarks :: "bookmark list" where
  "three_bookmarks =
     [\<lparr>bm_id = ''1'', bm_url = ''https://a.example''\<rparr>,
      \<lparr>bm_id = ''2'', bm_url = ''not a url!!''\<rparr>,
      \<lparr>bm_id = ''3'', bm_url = ''https://b.example''\<rparr>]"

definition all_cancelled :: network where
  "all_cancelled req = Cancelled"

text \<open>
  Checks settle in the order in which they were started; the server API answers \<^verbatim>\<open>ok\<close>
  for even queue indices and \<^verbatim>\<open>dead\<close> for odd ones; the signal never aborts.
\<close>

definition steady_schedule :: schedule where
  "steady_schedule =
     \<lparr>sch_pick = (\<lambda>k. 0), sch_abort = (\<lambda>k. False),
      sch_net = (\<lambda>j. if even j then api_says ''ok'' else api_says ''dead''),
      sch_now = (\<lambda>j. 5000 + int j)\<rparr>"

text \<open>
  The same, but the signal aborts after two settlements, and every request of a later
  check is cancelled by it.
\<close>

definition abort_schedule :: schedule where
  "abort_schedule =
     \<lparr>sch_pick = (\<lambda>k. 0), sch_abort = (\<lambda>k. k = 2),
      sch_net = (\<lambda>j. if j = 0 then api_says ''ok'' else if j = 1 then api_says ''dead''
                      else all_cancelled),
      sch_now = (\<lambda>j. 5000 + int j)\<rparr>"

text \<open>
  The signal aborts after the first settlement, which finds the link alive; every request
  of a later check is cancelled by it.
\<close>

definition early_abort_schedule :: schedule where
  "early_abort_schedule =
     \<lparr>sch_pick = (\<lambda>k. 0), sch_abort = (\<lambda>k. k = 1),
      sch_net = (\<lambda>j. if j = 0 then api_says ''ok'' else all_cancelled),
      sch_now = (\<lambda>j. 5000 + int j)\<rparr>"

text \<open>
  Runs: five bookmarks all served from the cache; five bookmarks and an empty storage;
  the same with one worker and the signal aborting after two settlements; three
  bookmarks, the second of them invalid, with the cache and without.
\<close>

definition cached_run :: "(js_error + LinkCheckResult list) \<times> batch_state" where
  "cached_run =
     batchCheckLinks example_newURL steady_schedule warm_storage 1000 five_bookmarks True
       no_options"

definition cold_run :: "(js_error + LinkCheckResult list) \<times> batch_state" where
  "cold_run =
     batchCheckLinks example_newURL steady_schedule empty_storage 1000 five_bookmarks True
       no_options"

definition aborted_run :: "(js_error + LinkCheckResult list) \<times> batch_state" where
  "aborted_run =
     batchCheckLinks example_newURL abort_schedule empty_storage 1000 five_bookmarks True
       one_worker_with_signal"

definition three_cached_run :: "(js_error + LinkCheckResult list) \<times> batch_state" where
  "three_cached_run =
     batchCheckLinks example_newURL steady_schedule warm_storage 1000 three_bookmarks True
       no_options"

definition three_cold_run :: "(js_error + LinkCheckResult list) \<times> batch_state" where
  "three_cold_run =
     batchCheckLinks example_newURL steady_schedule empty_storage 1000 three_bookmarks True
       no_options"

text \<open>
  Runs over the three bookmarks with a stored array, and with a storage that cannot be
  written; over the bookmarks with a shared id, with one worker and the signal aborting
  after the first settlement, and undisturbed.
\<close>

definition array_run :: "(js_error + LinkCheckResult list) \<times> batch_state" where
  "array_run =
     batchCheckLinks example_newURL steady_schedule array_storage 1000 three_bookmarks True
       no_options"

definition quota_run :: "(js_error + LinkCheckResult list) \<times> batch_state" where
  "quota_run =
     batchCheckLinks example_newURL steady_schedule quota_storage 1000 three_bookmarks True
       no_options"

definition twin_aborted_run :: "(js_error + LinkCheckResult list) \<times> batch_state" where
  "twin_aborted_run =
     batchCheckLinks example_newURL early_abort_schedule empty_storage 1000 twin_bookmarks
       True one_worker_with_signal"

definition shared_id_run :: "(js_error + LinkCheckResult list) \<times> batch_state" where
  "shared_id_run =
     batchCheckLinks example_newURL steady_schedule empty_storage 1000 shared_id_bookmarks
       True no_options"

text \<open>
  The state of the run over five bookmarks and an empty storage when the five workers
  have been started, and the state after the first settlement.
\<close>

definition workers_started :: batch_state where
  "workers_started =
     launch (batch_ctx example_newURL steady_schedule empty_storage 1000 five_bookmarks True
               no_options) 5
       (batch_init example_newURL empty_storage 1000 five_bookmarks True no_options)"

definition first_settlement :: batch_state where
  "first_settlement =
     sched_step (batch_ctx example_newURL steady_schedule empty_storage 1000 five_bookmarks
                   True no_options) workers_started"

section \<open>Theorems\<close>

text \<open>
  C5. The status classification is the same function on client and server and follows the
  table for every status code: the server's \<open>classifyStatus\<close> is the specification's table
  on every code, the client's \<open>classifyResponse\<close> is the same table applied to the
  response's status (an opaque response being unknown), so that on every response that is
  not opaque both sides classify alike; 404, 410, 401, 403, 500 and 503 are dead, 200, 204
  and 301 are ok, and 100 is unknown.
\<close>

theorem classify_client_server_table:
  "classifyStatus code = classify_spec False code
   \<and> classifyResponse resp = classify_spec (resp_type resp = ''opaque'') (resp_status resp)
   \<and> (resp_type resp = ''opaque'' \<or> classifyResponse resp = classifyStatus (resp_status resp))
   \<and> map classifyStatus [404, 410, 401, 403, 500, 503, 200, 204, 301, 100]
       = [Dead, Dead, Dead, Dead, Dead, Dead, Ok, Ok, Ok, Unknown]"
  by (simp add: classifyStatus_def classifyResponse_def classify_spec_def Let_def)

theorem classify_client_server_table_witness:
  "classifyStatus 302 = classify_spec False 302
   \<and> classifyResponse \<lparr>resp_type = ''basic'', resp_status = 302, resp_url = ''https://a/'',
        resp_json_status = None\<rparr> = Ok
   \<and> classifyStatus 302 = Ok"
  using classify_client_server_table
    [of 302 "\<lparr>resp_type = ''basic'', resp_status = 302, resp_url = ''https://a/'',
        resp_json_status = None\<rparr>"]
  by (simp add: classify_spec_def)

subsection \<open>Single checks\<close>

lemma get_attempt_cases: "get_attempt f = Inr Ok \<or> get_attempt f = Inr Dead"
  by (cases f) (auto simp: get_attempt_def Let_def classifyResponse_def split: status.splits)

lemma head_attempt_cases: "head_attempt f = Inr s \<Longrightarrow> s = Ok \<or> s = Dead"
  by (cases f; cases s) (auto simp: head_attempt_def Let_def split: if_splits)

lemma api_cases:
  "checkLinkHealthViaApi newURL net url t sg m = (Some s, sg', l) \<Longrightarrow> s = Ok \<or> s = Dead"
  by (auto simp: checkLinkHealthViaApi_def Let_def
      split: option.splits prod.splits fetch_result.splits if_splits)

lemma checkLinkHealth_cases:
  "fst (checkLinkHealth newURL net url timeoutOpt signalOpt) = Inr Ok
   \<or> fst (checkLinkHealth newURL net url timeoutOpt signalOpt) = Inr Dead"
  using get_attempt_cases head_attempt_cases api_cases
  by (fastforce simp: checkLinkHealth_def Let_def split: option.splits prod.splits sum.splits)

text \<open>
  C1. For every url and every options, whatever the network does (the API answers or
  fails, HEAD answers, fails or is aborted, GET answers, fails or is aborted, the signal is
  aborted from the start), the client's \<open>checkLinkHealth\<close> resolves, and to \<open>Ok\<close> or \<open>Dead\<close>:
  never to \<open>Unknown\<close>, and never by rejecting (\<open>Inl\<close>).
\<close>

theorem checkLinkHealth_resolves_ok_or_dead:
  "fst (checkLinkHealth newURL net url timeoutOpt signalOpt) \<in> {Inr Ok, Inr Dead}
   \<and> fst (checkLinkHealth newURL net url timeoutOpt signalOpt) \<noteq> Inr Unknown
   \<and> (\<forall>e. fst (checkLinkHealth newURL net url timeoutOpt signalOpt) \<noteq> Inl e)"
  using checkLinkHealth_cases [of newURL net url timeoutOpt signalOpt] by auto

theorem checkLinkHealth_resolves_ok_or_dead_witness:
  "fst (checkLinkHealth example_newURL status_100 ''https://a.example'' None None) = Inr Dead
   \<and> fst (checkLinkHealth example_newURL (api_says ''ok'') ''https://a.example'' None None)
       = Inr Ok"
  using checkLinkHealth_resolves_ok_or_dead
    [of example_newURL status_100 "''https://a.example''" None None]
  by (simp add: checkLinkHealth_def checkLinkHealthViaApi_def normalizeUrl_def trim_def
      isWhiteSpace_def example_newURL_def status_100_def api_says_def fetch_def
      mergeSignals_def caller_aborted_after_def resp_ok_def head_attempt_def
      classifyResponse_def Let_def)

text \<open>
  C8. For every input that is empty or white space, or that fails to parse as an
  http/https URL even with \<^verbatim>\<open>https://\<close> in front, \<open>normalizeUrl\<close> gives no URL; and
  whenever \<open>normalizeUrl\<close> gives no URL, \<open>checkLinkHealth\<close> returns \<open>Dead\<close> and starts no
  request at all (no call of the server API, no HEAD, no GET).
\<close>

theorem checkLinkHealth_invalid_no_network:
  "(invalid_input newURL url \<longrightarrow> normalizeUrl newURL url = None)
   \<and> (normalizeUrl newURL url = None \<longrightarrow>
        checkLinkHealth newURL net url timeoutOpt signalOpt = (Inr Dead, []))"
  by (auto simp: invalid_input_def normalizeUrl_def checkLinkHealth_def Let_def
      split: option.splits)

theorem checkLinkHealth_invalid_no_network_witness:
  "invalid_input example_newURL ''not a url!!''
   \<and> invalid_input example_newURL ''   ''
   \<and> checkLinkHealth example_newURL (api_says ''ok'') ''not a url!!'' None None
       = (Inr Dead, [])"
  using checkLinkHealth_invalid_no_network
    [of example_newURL "''not a url!!''" "api_says ''ok''" None None]
  by (simp add: invalid_input_def example_newURL_def trim_def isWhiteSpace_def)

text \<open>
  C6. Whenever the HEAD request of the single-link check is aborted in flight by its
  signal, no GET request is started, and the result is \<open>Dead\<close> in the client's checker
  but \<open>Unknown\<close> with error \<^verbatim>\<open>timeout\<close> in the server's. (On the server the \<^verbatim>\<open>catch\<close>
  after HEAD still calls fetch for GET; under the aborted signal that call rejects with
  an \<^verbatim>\<open>AbortError\<close> before a request is started, which the outer \<^verbatim>\<open>catch\<close> reports as
  the timeout.) On the client the HEAD request is started only when the server API gave no
  definite answer.
\<close>

theorem head_timeout_no_get_retry:
  assumes "net (Direct HEAD n) = TimedOut \<or> net (Direct HEAD n) = Cancelled"
  shows "(normalizeUrl newURL url = Some n
            \<and> Direct HEAD n \<in> set (snd (checkLinkHealth newURL net url timeoutOpt signalOpt))
          \<longrightarrow> fst (checkLinkHealth newURL net url timeoutOpt signalOpt) = Inr Dead
              \<and> (\<forall>u. Direct GET u
                     \<notin> set (snd (checkLinkHealth newURL net url timeoutOpt signalOpt))))
         \<and> server_checkLinkHealth net n timeoutMs =
             (\<lparr>hr_status = Unknown, hr_httpStatus = None, hr_finalUrl = None,
               hr_error = Some ''timeout''\<rparr>,
              [AbortTimer timeoutMs, Request (Direct HEAD n)])"
proof -
  have server: "server_checkLinkHealth net n timeoutMs =
             (\<lparr>hr_status = Unknown, hr_httpStatus = None, hr_finalUrl = None,
               hr_error = Some ''timeout''\<rparr>,
              [AbortTimer timeoutMs, Request (Direct HEAD n)])"
    using assms
    by (auto simp: server_checkLinkHealth_def fetch_def aborted_after_def abortError_def Let_def)
  have client: "fst (checkLinkHealth newURL net url timeoutOpt signalOpt) = Inr Dead
              \<and> (\<forall>u. Direct GET u
                     \<notin> set (snd (checkLinkHealth newURL net url timeoutOpt signalOpt)))"
    if "normalizeUrl newURL url = Some n"
      and "Direct HEAD n \<in> set (snd (checkLinkHealth newURL net url timeoutOpt signalOpt))"
    using that assms
    apply (simp add: checkLinkHealth_def Let_def split: option.splits prod.splits sum.splits)
    apply (auto simp: checkLinkHealthViaApi_def fetch_def head_attempt_def isAbortError_def
        abortError_def Let_def split: option.splits if_splits)
    done
  show ?thesis
    using server client by blast
qed

theorem head_timeout_no_get_retry_witness:
  "checkLinkHealth example_newURL head_hangs ''https://a.example'' None None
     = (Inr Dead, [LinkHealthApi ''https://a.example/'' ''auto'' 4500,
                   Direct HEAD ''https://a.example/''])
   \<and> server_checkLinkHealth head_hangs ''https://a.example/'' 6000
       = (\<lparr>hr_status = Unknown, hr_httpStatus = None, hr_finalUrl = None,
           hr_error = Some ''timeout''\<rparr>,
          [AbortTimer 6000, Request (Direct HEAD ''https://a.example/'')])"
proof -
  have hangs: "head_hangs (Direct HEAD ''https://a.example/'') = TimedOut
               \<or> head_hangs (Direct HEAD ''https://a.example/'') = Cancelled"
    by (simp add: head_hangs_def)
  have run: "checkLinkHealth example_newURL head_hangs ''https://a.example'' None None
     = (Inr Dead, [LinkHealthApi ''https://a.example/'' ''auto'' 4500,
                   Direct HEAD ''https://a.example/''])"
    by (simp add: checkLinkHealth_def checkLinkHealthViaApi_def normalizeUrl_def trim_def
        isWhiteSpace_def example_newURL_def head_hangs_def fetch_def mergeSignals_def
        caller_aborted_after_def head_attempt_def isAbortError_def abortError_def
        typeError_def Let_def)
  show ?thesis
    using head_timeout_no_get_retry
        [where net = head_hangs and n = "''https://a.example/''" and newURL = example_newURL
           and url = "''https://a.example''" and timeoutOpt = None and signalOpt = None
           and timeoutMs = 6000] hangs run
    by simp
qed

lemma tcp_effects_timeout:
  "checkTcpConnectivity newURL tcp n ms0 = (t, e2) \<Longrightarrow>
   SocketConnect port host ms \<in> set e2 \<Longrightarrow> ms = ms0"
  by (auto simp: checkTcpConnectivity_def Let_def split: option.splits prod.splits)

lemma server_effects:
  "server_checkLinkHealth net n ms = (h, e1) \<Longrightarrow>
   set e1 \<subseteq> insert (AbortTimer ms) (range Request)"
  by (auto simp: server_checkLinkHealth_def Let_def split: prod.splits sum.splits)

text \<open>
  C7. For a valid url and mode \<^verbatim>\<open>auto\<close> (given, or by default), the endpoint first runs
  the HTTP check, with result \<open>h\<close> and effects \<open>e1\<close>, none of which is a DNS lookup or a
  socket connect. If the status of \<open>h\<close> is not \<open>Unknown\<close> the reply has the normalized url,
  mode \<^verbatim>\<open>auto\<close> and the members of \<open>h\<close> (status, HTTP status, final url, error), with no
  port and no \<^verbatim>\<open>httpFallback\<close>, and nothing else happens. Only if it is \<open>Unknown\<close> the TCP
  probe runs after it, with timeout \<open>min timeoutMs 3000\<close>, so that every socket it opens has
  a timeout of at most 3000 ms, and the reply has the normalized url, mode \<^verbatim>\<open>auto\<close>, the
  members of the TCP result (status, port, error) and \<open>h\<close> under \<^verbatim>\<open>httpFallback\<close>.
\<close>

theorem link_health_auto_mode:
  assumes "q_mode query = None \<or> q_mode query = Some ''auto''"
    and "q_url query = Some raw" and "normalizeUrl newURL raw = Some n"
    and "server_checkLinkHealth net n (requested_timeout (q_timeoutMs query)) = (h, e1)"
    and "checkTcpConnectivity newURL tcp n
           (min (requested_timeout (q_timeoutMs query)) 3000) = (t, e2)"
  shows "link_health_endpoint newURL net tcp query =
           (if hr_status h = Unknown
            then (Json200
                    \<lparr>b_url = n, b_mode = ''auto'', b_status = tr_status t,
                     b_httpStatus = None, b_finalUrl = None, b_port = tr_port t,
                     b_error = tr_error t, b_httpFallback = Some h\<rparr>,
                  e1 @ e2)
            else (Json200
                    \<lparr>b_url = n, b_mode = ''auto'', b_status = hr_status h,
                     b_httpStatus = hr_httpStatus h, b_finalUrl = hr_finalUrl h,
                     b_port = None, b_error = hr_error h, b_httpFallback = None\<rparr>,
                  e1))
         \<and> (\<forall>port host ms. SocketConnect port host ms \<in> set e2 \<longrightarrow> ms \<le> 3000)
         \<and> (\<forall>port host ms. SocketConnect port host ms \<notin> set e1)
         \<and> (\<forall>host. DnsLookup host \<notin> set e1)"
proof -
  have m: "toLowerCase (case q_mode query of
                          None \<Rightarrow> ''auto''
                        | Some m \<Rightarrow> if m = [] then ''auto'' else m) = ''auto''"
    using assms(1) by (auto simp: toLowerCase_def)
  have a: "link_health_endpoint newURL net tcp query =
           (if hr_status h = Unknown
            then (Json200
                    \<lparr>b_url = n, b_mode = ''auto'', b_status = tr_status t,
                     b_httpStatus = None, b_finalUrl = None, b_port = tr_port t,
                     b_error = tr_error t, b_httpFallback = Some h\<rparr>,
                  e1 @ e2)
            else (Json200
                    \<lparr>b_url = n, b_mode = ''auto'', b_status = hr_status h,
                     b_httpStatus = hr_httpStatus h, b_finalUrl = hr_finalUrl h,
                     b_port = None, b_error = hr_error h, b_httpFallback = None\<rparr>,
                  e1))"
    using assms(2-5)
    by (simp add: link_health_endpoint_def m Let_def tcp_body_def http_body_def)
  have b: "\<forall>port host ms. SocketConnect port host ms \<in> set e2 \<longrightarrow> ms \<le> 3000"
  proof (intro allI impI)
    fix port host ms
    assume "SocketConnect port host ms \<in> set e2"
    then have "ms = min (requested_timeout (q_timeoutMs query)) 3000"
      using tcp_effects_timeout [OF assms(5)] by blast
    then show "ms \<le> 3000"
      by simp
  qed
  have c: "(\<forall>port host ms. SocketConnect port host ms \<notin> set e1)
           \<and> (\<forall>host. DnsLookup host \<notin> set e1)"
    using server_effects [OF assms(4)] by auto
  show ?thesis
    using a b c by blast
qed

theorem link_health_auto_mode_witness:
  "link_health_endpoint example_newURL status_100 example_tcp
     \<lparr>q_url = Some ''https://a.example'', q_mode = None, q_timeoutMs = Finite 8000\<rparr>
   = (Json200
        \<lparr>b_url = ''https://a.example/'', b_mode = ''auto'', b_status = Ok,
         b_httpStatus = None, b_finalUrl = None, b_port = Some 443, b_error = None,
         b_httpFallback =
           Some \<lparr>hr_status = Unknown, hr_httpStatus = Some 100,
                 hr_finalUrl = Some ''https://a.example/'', hr_error = None\<rparr>\<rparr>,
      [AbortTimer 8000, Request (Direct HEAD ''https://a.example/''),
       DnsLookup ''a.example'', SocketConnect 443 ''a.example'' 3000])
   \<and> link_health_endpoint example_newURL status_404 example_tcp
       \<lparr>q_url = Some ''https://a.example'', q_mode = Some ''auto'', q_timeoutMs = NotFinite\<rparr>
     = (Json200
          \<lparr>b_url = ''https://a.example/'', b_mode = ''auto'', b_status = Dead,
           b_httpStatus = Some 404, b_finalUrl = Some ''https://a.example/'',
           b_port = None, b_error = None, b_httpFallback = None\<rparr>,
        [AbortTimer 6000, Request (Direct HEAD ''https://a.example/'')])"
proof -
  let ?q = "\<lparr>q_url = Some ''https://a.example'', q_mode = None, q_timeoutMs = Finite 8000\<rparr>"
  let ?h = "\<lparr>hr_status = Unknown, hr_httpStatus = Some 100,
             hr_finalUrl = Some ''https://a.example/'', hr_error = None\<rparr>"
  let ?t = "\<lparr>tr_status = Ok, tr_port = Some 443, tr_error = None\<rparr>"
  let ?q' = "\<lparr>q_url = Some ''https://a.example'', q_mode = Some ''auto'',
              q_timeoutMs = NotFinite\<rparr>"
  let ?h' = "\<lparr>hr_status = Dead, hr_httpStatus = Some 404,
              hr_finalUrl = Some ''https://a.example/'', hr_error = None\<rparr>"
  have mode: "q_mode ?q = None \<or> q_mode ?q = Some ''auto''"
    by simp
  have url: "q_url ?q = Some ''https://a.example''"
    by simp
  have norm: "normalizeUrl example_newURL ''https://a.example'' = Some ''https://a.example/''"
    by (simp add: normalizeUrl_def example_newURL_def trim_def isWhiteSpace_def)
  have http: "server_checkLinkHealth status_100 ''https://a.example/''
                (requested_timeout (q_timeoutMs ?q))
              = (?h, [AbortTimer 8000, Request (Direct HEAD ''https://a.example/'')])"
    by (simp add: server_checkLinkHealth_def fetch_def status_100_def classifyStatus_def
        aborted_after_def requested_timeout_def Let_def)
  have probe: "checkTcpConnectivity example_newURL example_tcp ''https://a.example/''
                 (min (requested_timeout (q_timeoutMs ?q)) 3000)
               = (?t, [DnsLookup ''a.example'', SocketConnect 443 ''a.example'' 3000])"
    by (simp add: checkTcpConnectivity_def example_newURL_def example_tcp_def
        requested_timeout_def Let_def)
  have mode': "q_mode ?q' = None \<or> q_mode ?q' = Some ''auto''"
    by simp
  have url': "q_url ?q' = Some ''https://a.example''"
    by simp
  have http': "server_checkLinkHealth status_404 ''https://a.example/''
                 (requested_timeout (q_timeoutMs ?q'))
               = (?h', [AbortTimer 6000, Request (Direct HEAD ''https://a.example/'')])"
    by (simp add: server_checkLinkHealth_def fetch_def status_404_def classifyStatus_def
        aborted_after_def requested_timeout_def Let_def)
  have probe': "checkTcpConnectivity example_newURL example_tcp ''https://a.example/''
                  (min (requested_timeout (q_timeoutMs ?q')) 3000)
                = (?t, [DnsLookup ''a.example'', SocketConnect 443 ''a.example'' 3000])"
    by (simp add: checkTcpConnectivity_def example_newURL_def example_tcp_def
        requested_timeout_def Let_def)
  have a: "link_health_endpoint example_newURL status_100 example_tcp ?q
   = (Json200
        \<lparr>b_url = ''https://a.example/'', b_mode = ''auto'', b_status = Ok,
         b_httpStatus = None, b_finalUrl = None, b_port = Some 443, b_error = None,
         b_httpFallback = Some ?h\<rparr>,
      [AbortTimer 8000, Request (Direct HEAD ''https://a.example/''),
       DnsLookup ''a.example'', SocketConnect 443 ''a.example'' 3000])"
    using link_health_auto_mode [OF mode url norm http probe] by simp
  have b: "link_health_endpoint example_newURL status_404 example_tcp ?q'
   = (Json200
          \<lparr>b_url = ''https://a.example/'', b_mode = ''auto'', b_status = Dead,
           b_httpStatus = Some 404, b_finalUrl = Some ''https://a.example/'',
           b_port = None, b_error = None, b_httpFallback = None\<rparr>,
        [AbortTimer 6000, Request (Direct HEAD ''https://a.example/'')])"
    using link_health_auto_mode [OF mode' url' norm http' probe'] by simp
  show ?thesis
    using a b by blast
qed

subsection \<open>Batch runs: settlements, invariants, the first loop\<close>

lemma run_rule:
  assumes "P st"
    and step: "\<And>s. P s \<Longrightarrow> inflight s \<noteq> [] \<Longrightarrow> rejected s = None \<Longrightarrow> P (sched_step C s)"
  shows "P (run C st) \<and> (inflight (run C st) = [] \<or> rejected (run C st) \<noteq> None)"
  using assms
proof (induction C st rule: run.induct)
  case (1 C st)
  show ?case
  proof (cases "inflight st = [] \<or> rejected st \<noteq> None")
    case True
    then have "run C st = st"
      by (simp add: run.simps)
    then show ?thesis
      using "1.prems" True by simp
  next
    case False
    then have eq: "run C st = run C (sched_step C st)"
      by (simp add: run.simps)
    have "P (sched_step C st)"
      using "1.prems" False by auto
    then show ?thesis
      using "1.IH" "1.prems"(2) False eq by simp
  qed
qed

lemma resume_step:
  assumes "i < length (inflight st)"
  shows "\<exists>A B index item status.
           inflight st = A @ (index, item) # B \<and> length A = i
           \<and> fst (check_of C index item) = Inr status \<and> (status = Ok \<or> status = Dead)
           \<and> resume C i st = settled C st A B index item status"
proof -
  obtain index item where job: "inflight st ! i = (index, item)"
    by (cases "inflight st ! i")
  define A where "A = take i (inflight st)"
  define B where "B = drop (Suc i) (inflight st)"
  have split: "inflight st = A @ (index, item) # B"
    using id_take_nth_drop [OF assms] job by (simp add: A_def B_def)
  have len: "length A = i"
    using assms by (simp add: A_def)
  have upd: "(inflight st)[i := job'] = A @ job' # B" for job'
    using upd_conv_take_nth_drop [OF assms] by (simp add: A_def B_def)
  obtain outcome started where chk: "check_of C index item = (outcome, started)"
    by (cases "check_of C index item")
  obtain status where st: "outcome = Inr status" "status = Ok \<or> status = Dead"
    using checkLinkHealth_cases
      [of "rc_newURL C" "sch_net (rc_sched C) index" "bm_url item" "Some (rc_timeoutMs C)"
          "if rc_signal C then Some False else None"] chk
    unfolding check_of_def by auto
  define R where "R = record_result C index item status started st"
  have R: "aborted R = aborted st" "cursor R = cursor st"
    by (simp_all add: R_def record_result_def)
  have res: "resume C i st =
               (case claim_next C R of
                  (st2, None) \<Rightarrow> st2\<lparr>inflight := A @ B\<rparr>
                | (st2, Some job) \<Rightarrow> st2\<lparr>inflight := A @ job # B\<rparr>)"
    using job chk st(1) upd
    by (simp add: resume_def check_of_def [symmetric] A_def [symmetric] B_def [symmetric]
        R_def [symmetric] split: prod.splits option.splits)
  have "resume C i st = settled C st A B index item status"
    unfolding res settled_def
    using chk R by (simp add: claim_next_def Let_def R_def [symmetric])
  then have "inflight st = A @ (index, item) # B \<and> length A = i
           \<and> fst (check_of C index item) = Inr status \<and> (status = Ok \<or> status = Dead)
           \<and> resume C i st = settled C st A B index item status"
    using split len st chk by simp
  then show ?thesis
    by blast
qed

lemma sched_step_step:
  assumes "inflight st \<noteq> []"
  shows "\<exists>st1 A B index item status.
           (st1 = st \<or> st1 = st\<lparr>aborted := True\<rparr> \<and> rc_signal C)
           \<and> inflight st = A @ (index, item) # B
           \<and> fst (check_of C index item) = Inr status \<and> (status = Ok \<or> status = Dead)
           \<and> sched_step C st = (settled C st1 A B index item status)\<lparr>steps := steps st + 1\<rparr>"
proof -
  define st1 where
    "st1 = (if rc_signal C \<and> sch_abort (rc_sched C) (steps st) then st\<lparr>aborted := True\<rparr> else st)"
  define i where "i = sch_pick (rc_sched C) (steps st) mod length (inflight st1)"
  have same: "inflight st1 = inflight st"
    by (simp add: st1_def)
  have lt: "i < length (inflight st1)"
    using assms same by (simp add: i_def)
  have step: "sched_step C st = (resume C i st1)\<lparr>steps := steps st + 1\<rparr>"
    by (simp add: sched_step_def Let_def st1_def i_def)
  have which: "st1 = st \<or> st1 = st\<lparr>aborted := True\<rparr> \<and> rc_signal C"
    by (simp add: st1_def)
  obtain A B index item status where
    "inflight st1 = A @ (index, item) # B" "fst (check_of C index item) = Inr status"
    "status = Ok \<or> status = Dead" "resume C i st1 = settled C st1 A B index item status"
    using resume_step [OF lt, of C] by blast
  then have "(st1 = st \<or> st1 = st\<lparr>aborted := True\<rparr> \<and> rc_signal C)
           \<and> inflight st = A @ (index, item) # B
           \<and> fst (check_of C index item) = Inr status \<and> (status = Ok \<or> status = Dead)
           \<and> sched_step C st = (settled C st1 A B index item status)\<lparr>steps := steps st + 1\<rparr>"
    using which same step by simp
  then show ?thesis
    by blast
qed

lemma launch_Suc: "launch C (Suc n) st = launch C n (launch_step C st)"
  by (simp add: launch_step_def claim_next_def Let_def)

lemma launch_rule:
  assumes "P st" and "\<And>s. P s \<Longrightarrow> P (launch_step C s)"
  shows "P (launch C n st)"
  using assms(1)
proof (induction n arbitrary: st)
  case 0
  then show ?case by simp
next
  case (Suc n)
  then show ?case
    using assms(2) by (simp only: launch_Suc)
qed

lemma inv_count_abort: "inv_count C p0 st \<Longrightarrow> inv_count C p0 (st\<lparr>aborted := True\<rparr>)"
  by (simp add: inv_count_def)

lemma inv_count_settled:
  assumes "inv_count C p0 st" and "inflight st = A @ (index, item) # B"
  shows "inv_count C p0 ((settled C st A B index item status)\<lparr>steps := k\<rparr>)"
  using assms
  by (auto simp: inv_count_def settled_def record_result_def Let_def)

lemma inv_count_launch_step: "inv_count C p0 st \<Longrightarrow> inv_count C p0 (launch_step C st)"
  by (auto simp: inv_count_def launch_step_def)

lemma live_abort: "live C (st\<lparr>aborted := True\<rparr>)"
  by (simp add: live_def)

lemma live_settled: "live C ((settled C st A B index item status)\<lparr>steps := k\<rparr>)"
  by (auto simp: live_def settled_def record_result_def Let_def)

lemma live_launch_step: "live C (launch_step C st)"
  by (auto simp: live_def launch_step_def)

lemma live_launch:
  assumes "0 < n"
  shows "live C (launch C n st)"
proof -
  obtain m where n: "n = Suc m"
    using assms by (cases n) auto
  show ?thesis
    unfolding n launch_Suc
    by (rule launch_rule [where P = "live C"]) (rule live_launch_step)+
qed

lemma inv_jobs_abort: "inv_jobs C st \<Longrightarrow> inv_jobs C (st\<lparr>aborted := True\<rparr>)"
  by (simp add: inv_jobs_def)

lemma inv_jobs_settled:
  assumes "inv_jobs C st" and "inflight st = A @ (index, item) # B"
  shows "inv_jobs C ((settled C st A B index item status)\<lparr>steps := k\<rparr>)"
proof -
  have items: "\<forall>(j, item) \<in> set (A @ B). item = rc_queue C ! j"
    using assms by (auto simp: inv_jobs_def)
  have cover: "insert index (set (checked st) \<union> fst ` set (A @ B))
                = {j. j < cursor st \<and> j < length (rc_queue C)}"
    using assms by (auto simp: inv_jobs_def)
  have dist: "distinct (map fst (A @ B) @ checked st @ [index])"
    using assms by (auto simp: inv_jobs_def)
  have fresh: "cursor st \<notin> set (checked st) \<union> fst ` set (A @ B) \<union> {index}"
    using cover by auto
  show ?thesis
  proof (cases "aborted st \<or> length (rc_queue C) \<le> cursor st")
    case True
    have "{j. j < Suc (cursor st) \<and> j < length (rc_queue C)}
            = {j. j < cursor st \<and> j < length (rc_queue C)}"
      if "length (rc_queue C) \<le> cursor st"
      using that by auto
    then show ?thesis
      using True items cover dist
      by (auto simp: inv_jobs_def settled_def record_result_def Let_def)
  next
    case False
    have "{j. j < Suc (cursor st) \<and> j < length (rc_queue C)}
            = insert (cursor st) {j. j < cursor st \<and> j < length (rc_queue C)}"
      using False by auto
    then show ?thesis
      using False items cover dist fresh
      by (auto simp: inv_jobs_def settled_def record_result_def Let_def)
  qed
qed

lemma inv_jobs_launch_step: "inv_jobs C st \<Longrightarrow> inv_jobs C (launch_step C st)"
proof -
  assume a: "inv_jobs C st"
  have fresh: "cursor st \<notin> set (checked st) \<union> fst ` set (inflight st)"
    using a by (auto simp: inv_jobs_def)
  have e1: "{j. j < Suc (cursor st) \<and> j < length (rc_queue C)}
            = {j. j < cursor st \<and> j < length (rc_queue C)}"
    if "length (rc_queue C) \<le> cursor st"
    using that by auto
  have e2: "{j. j < Suc (cursor st) \<and> j < length (rc_queue C)}
            = insert (cursor st) {j. j < cursor st \<and> j < length (rc_queue C)}"
    if "\<not> length (rc_queue C) \<le> cursor st"
    using that by auto
  show ?thesis
    using a fresh e1 e2
    by (auto simp: inv_jobs_def launch_step_def)
qed

lemma inv_jobs_index:
  assumes "inv_jobs C st" and "inflight st = A @ (index, item) # B"
  shows "item = rc_queue C ! index" and "index < length (rc_queue C)"
    and "index \<notin> set (checked st)" and "\<forall>j \<in> set (checked st). j < length (rc_queue C)"
  using assms by (auto simp: inv_jobs_def)

lemma inv_results_abort:
  "inv_results C results0 st \<Longrightarrow> inv_results C results0 (st\<lparr>aborted := True\<rparr>)"
  by (simp add: inv_results_def)

lemma inv_results_launch_step:
  "inv_results C results0 st \<Longrightarrow> inv_results C results0 (launch_step C st)"
  by (simp add: inv_results_def launch_step_def)

lemma settled_fields:
  "resultsById ((settled C st A B index item status)\<lparr>steps := k\<rparr>)
     = AList.update (bm_id item)
         \<lparr>res_id = bm_id item, res_url = bm_url item, res_status = status\<rparr> (resultsById st)"
  "co_entries (cache ((settled C st A B index item status)\<lparr>steps := k\<rparr>))
     = AList.update (bm_url item)
         \<lparr>ce_status = status, ce_checkedAt = sch_now (rc_sched C) index\<rparr>
         (co_entries (cache st))"
  "checked ((settled C st A B index item status)\<lparr>steps := k\<rparr>) = checked st @ [index]"
  "requests ((settled C st A B index item status)\<lparr>steps := k\<rparr>)
     = requests st @ snd (check_of C index item)"
  "storage ((settled C st A B index item status)\<lparr>steps := k\<rparr>) = storage st"
  "launched ((settled C st A B index item status)\<lparr>steps := k\<rparr>) = launched st"
  "aborted ((settled C st A B index item status)\<lparr>steps := k\<rparr>) = aborted st"
  "co_array (cache ((settled C st A B index item status)\<lparr>steps := k\<rparr>)) = co_array (cache st)"
  by (simp_all add: settled_def record_result_def Let_def)

lemma settled_cache:
  "cache ((settled C st A B index item status)\<lparr>steps := k\<rparr>)
     = (cache st)\<lparr>co_entries :=
         AList.update (bm_url item)
           \<lparr>ce_status = status, ce_checkedAt = sch_now (rc_sched C) index\<rparr>
           (co_entries (cache st))\<rparr>"
  by (simp add: settled_def record_result_def Let_def)

lemma inv_cache_abort: "inv_cache C c0 st \<Longrightarrow> inv_cache C c0 (st\<lparr>aborted := True\<rparr>)"
  by (simp add: inv_cache_def)

lemma inv_cache_launch_step: "inv_cache C c0 st \<Longrightarrow> inv_cache C c0 (launch_step C st)"
  by (simp add: inv_cache_def launch_step_def)

lemma inv_cache_settled:
  assumes inv: "inv_cache C c0 st" and jobs: "inv_jobs C st"
    and split: "inflight st = A @ (index, item) # B"
    and chk: "fst (check_of C index item) = Inr status"
  shows "inv_cache C c0 ((settled C st A B index item status)\<lparr>steps := k\<rparr>)"
proof -
  note idx = inv_jobs_index [OF jobs split]
  have "status = status_of C index"
    using idx(1) chk by (simp add: status_of_def)
  then show ?thesis
    using inv idx(1) unfolding inv_cache_def settled_cache settled_fields
    by (simp add: entries_after_def)
qed

lemma inv_results_settled:
  assumes inv: "inv_results C results0 st" and jobs: "inv_jobs C st"
    and split: "inflight st = A @ (index, item) # B"
    and chk: "fst (check_of C index item) = Inr status"
    and ids: "distinct (map bm_id (rc_queue C))"
  shows "inv_results C results0 ((settled C st A B index item status)\<lparr>steps := k\<rparr>)"
proof -
  note idx = inv_jobs_index [OF jobs split]
  have rec: "\<lparr>res_id = bm_id item, res_url = bm_url item, res_status = status\<rparr> = recorded C index"
    using idx(1) chk by (simp add: recorded_def status_of_def)
  have other: "bm_id (rc_queue C ! j) \<noteq> bm_id item" if "j \<in> set (checked st)" for j
  proof -
    have "j \<noteq> index" "j < length (rc_queue C)"
      using that idx(3,4) by auto
    then show ?thesis
      using ids idx(1,2) nth_eq_iff_index_eq [of "map bm_id (rc_queue C)" j index] by simp
  qed
  have a: "\<forall>j \<in> set (checked st @ [index]).
             map_of (AList.update (bm_id item) (recorded C index) (resultsById st))
               (bm_id (rc_queue C ! j)) = Some (recorded C j)"
    using inv other idx(1) by (auto simp: inv_results_def update_conv')
  have b: "\<forall>k. k \<notin> (\<lambda>j. bm_id (rc_queue C ! j)) ` set (checked st @ [index])
             \<longrightarrow> map_of (AList.update (bm_id item) (recorded C index) (resultsById st)) k
                 = map_of results0 k"
    using inv idx(1) by (auto simp: inv_results_def update_conv')
  have c: "\<forall>j \<in> set (checked st @ [index]).
             \<exists>e. map_of (AList.update (bm_url item)
                     \<lparr>ce_status = status, ce_checkedAt = sch_now (rc_sched C) index\<rparr>
                     (co_entries (cache st)))
                   (bm_url (rc_queue C ! j)) = Some e"
    using inv idx(1) by (auto simp: inv_results_def update_conv')
  have d: "requests st @ snd (check_of C index item)
             = concat (map (\<lambda>j. snd (check_of C j (rc_queue C ! j))) (checked st @ [index]))"
    using inv idx(1) by (simp add: inv_results_def)
  show ?thesis
    unfolding inv_results_def settled_fields rec
    using a b c d by blast
qed

lemma partition_step_dispose:
  "partition_step newURL cm now ttl force acc b =
     (case dispose newURL cm now ttl force b of
        Inl r \<Rightarrow> (AList.update (bm_id b) r (fst acc), snd acc)
      | Inr item \<Rightarrow> (fst acc, snd acc @ [item]))"
  by (simp add: partition_step_def dispose_def split: option.splits)

lemma dispose_Inl:
  "dispose newURL cm now ttl force b = Inl r \<Longrightarrow> res_id r = bm_id b \<and> res_url r = bm_url b"
  by (auto simp: dispose_def split: option.splits if_splits)

lemma dispose_Inr:
  "dispose newURL cm now ttl force b = Inr item \<Longrightarrow>
   bm_id item = bm_id b \<and> normalizeUrl newURL (bm_url b) = Some (bm_url item)"
  by (auto simp: dispose_def split: option.splits if_splits)

lemma update_new: "k \<notin> fst ` set al \<Longrightarrow> AList.update k v al = al @ [(k, v)]"
  by (induction al) auto

lemma upfront_ids: "map fst (upfront_of d bs) = map bm_id (filter (\<lambda>b. isl (d b)) bs)"
  by (simp add: upfront_of_def comp_def)

lemma upfront_keys: "fst ` set (upfront_of d bs) \<subseteq> bm_id ` set bs"
  using upfront_ids [of d bs] by (metis (no_types, lifting) filter_is_subset image_mono list.set_map)


lemma partition_targets_char:
  assumes "distinct (map bm_id bs)"
  shows "partition_targets newURL cm now ttl force bs =
           (upfront_of (dispose newURL cm now ttl force) bs,
            queue_of (dispose newURL cm now ttl force) bs)"
  using assms
proof (induction bs rule: rev_induct)
  case Nil
  then show ?case
    by (simp add: partition_targets_def upfront_of_def queue_of_def)
next
  case (snoc x xs)
  have IH: "partition_targets newURL cm now ttl force xs =
           (upfront_of (dispose newURL cm now ttl force) xs,
            queue_of (dispose newURL cm now ttl force) xs)"
    using snoc by simp
  have new: "bm_id x \<notin> fst ` set (upfront_of (dispose newURL cm now ttl force) xs)"
    using snoc.prems upfront_keys [of "dispose newURL cm now ttl force" xs] by auto
  have "partition_targets newURL cm now ttl force (xs @ [x]) =
          partition_step newURL cm now ttl force
            (partition_targets newURL cm now ttl force xs) x"
    by (simp add: partition_targets_def)
  then show ?case
    using update_new [OF new]
    by (cases "dispose newURL cm now ttl force x")
       (simp_all add: IH partition_step_dispose upfront_of_def queue_of_def)
qed

lemma queue_ids:
  "map bm_id (queue_of (dispose newURL cm now ttl force) bs)
     = map bm_id (filter (\<lambda>b. \<not> isl (dispose newURL cm now ttl force b)) bs)"
proof -
  have "bm_id (projr (dispose newURL cm now ttl force b)) = bm_id b"
    if "\<not> isl (dispose newURL cm now ttl force b)" for b
    using that dispose_Inr [of newURL cm now ttl force b]
    by (cases "dispose newURL cm now ttl force b") auto
  then show ?thesis
    by (simp add: queue_of_def)
qed

lemma queue_distinct:
  "distinct (map bm_id bs) \<Longrightarrow>
   distinct (map bm_id (queue_of (dispose newURL cm now ttl force) bs))"
  by (simp add: queue_ids distinct_map_filter)

lemma upfront_distinct: "distinct (map bm_id bs) \<Longrightarrow> distinct (map fst (upfront_of d bs))"
  by (simp add: upfront_ids distinct_map_filter)

lemma upfront_lookup:
  assumes "distinct (map bm_id bs)" and "b \<in> set bs"
  shows "map_of (upfront_of d bs) (bm_id b) = (case d b of Inl r \<Rightarrow> Some r | Inr _ \<Rightarrow> None)"
proof (cases "d b")
  case (Inl r)
  have "(bm_id b, r) \<in> set (upfront_of d bs)"
    using assms(2) Inl by (force simp: upfront_of_def)
  then show ?thesis
    using upfront_distinct [OF assms(1)] Inl by simp
next
  case (Inr item)
  have "bm_id b \<notin> fst ` set (upfront_of d bs)"
  proof
    assume "bm_id b \<in> fst ` set (upfront_of d bs)"
    then obtain b' where b': "b' \<in> set bs" "bm_id b' = bm_id b" "isl (d b')"
      by (auto simp: upfront_of_def)
    have "inj_on bm_id (set bs)"
      using assms(1) by (simp add: distinct_map)
    then have "b' = b"
      using b' assms(2) by (auto dest: inj_onD)
    then show False
      using b'(3) Inr by simp
  qed
  then show ?thesis
    using Inr by (simp add: map_of_eq_None_iff)
qed

lemma queue_member:
  "item \<in> set (queue_of d bs) \<longleftrightarrow> (\<exists>b \<in> set bs. d b = Inr item)"
proof
  assume "item \<in> set (queue_of d bs)"
  then obtain b where "b \<in> set bs" "\<not> isl (d b)" "item = projr (d b)"
    by (auto simp: queue_of_def)
  then show "\<exists>b \<in> set bs. d b = Inr item"
    by (cases "d b") auto
next
  assume "\<exists>b \<in> set bs. d b = Inr item"
  then show "item \<in> set (queue_of d bs)"
    by (force simp: queue_of_def)
qed

lemma run_inv_sched_step:
  assumes inv: "run_inv C results0 ls n st" and busy: "inflight st \<noteq> []"
  shows "run_inv C results0 ls n (sched_step C st) \<and> live C (sched_step C st)"
proof -
  obtain st1 A B index item status where
    st1: "st1 = st \<or> st1 = st\<lparr>aborted := True\<rparr> \<and> rc_signal C"
    and split: "inflight st = A @ (index, item) # B"
    and chk: "fst (check_of C index item) = Inr status"
    and step: "sched_step C st = (settled C st1 A B index item status)\<lparr>steps := steps st + 1\<rparr>"
    using sched_step_step [OF busy, of C] by blast
  have split1: "inflight st1 = A @ (index, item) # B"
    using st1 split by auto
  have inv1: "run_inv C results0 ls n st1"
    using st1 inv
    by (auto simp: run_inv_def inv_count_abort inv_jobs_abort inv_results_abort
        inv_cache_abort)
  have "inv_count C (length results0) (sched_step C st)"
    unfolding step using inv1 split1 by (simp add: run_inv_def inv_count_settled)
  moreover have "inv_jobs C (sched_step C st)"
    unfolding step using inv1 split1 by (simp add: run_inv_def inv_jobs_settled)
  moreover have "storage (sched_step C st) = ls" "launched (sched_step C st) = n"
    unfolding step settled_fields using inv1 by (simp_all add: run_inv_def)
  moreover have "inv_cache C (readCache ls) (sched_step C st)"
    unfolding step using inv1 split1 chk by (simp add: run_inv_def inv_cache_settled)
  moreover have "inv_results C results0 (sched_step C st)"
    if "distinct (map bm_id (rc_queue C))"
    unfolding step using inv1 split1 chk that
    by (simp add: run_inv_def inv_results_settled)
  moreover have "live C (sched_step C st)"
    unfolding step by (rule live_settled)
  ultimately show ?thesis
    by (simp add: run_inv_def)
qed

lemma launched_launch_step: "launched (launch_step C st) = launched st + 1"
  by (simp add: launch_step_def)

lemma storage_launch_step: "storage (launch_step C st) = storage st"
  by (simp add: launch_step_def)

lemma run_inv_launch:
  assumes "run_inv C results0 ls m st"
  shows "run_inv C results0 ls (m + n) (launch C n st)"
  using assms
proof (induction n arbitrary: st m)
  case 0
  then show ?case by simp
next
  case (Suc n)
  have "run_inv C results0 ls (m + 1) (launch_step C st)"
    using Suc.prems
    by (simp add: run_inv_def inv_count_launch_step inv_jobs_launch_step
        inv_results_launch_step launched_launch_step storage_launch_step
        inv_cache_launch_step)
  then show ?case
    using Suc.IH [of "m + 1" "launch_step C st"] unfolding launch_Suc by simp
qed

lemma run_inv_init:
  "run_inv (batch_ctx newURL sched ls now bookmarks onProgress options)
     (fst (batch_partition newURL ls now bookmarks options)) ls 0
     (batch_init newURL ls now bookmarks onProgress options)"
  by (simp add: run_inv_def batch_init_def batch_ctx_def inv_count_def inv_jobs_def
      inv_results_def inv_cache_def entries_after_def Let_def)

lemma concurrency_pos: "0 < nat (batch_concurrency options n)"
  by (simp add: batch_concurrency_def)

lemma batch_run:
  fixes newURL sched ls now bookmarks onProgress options
  defines "C \<equiv> batch_ctx newURL sched ls now bookmarks onProgress options"
    and "n \<equiv> nat (batch_concurrency options (length bookmarks))"
  defines "st1 \<equiv> run C (launch C n (batch_init newURL ls now bookmarks onProgress options))"
  shows "run_inv C (fst (batch_partition newURL ls now bookmarks options)) ls n st1
         \<and> live C st1 \<and> inflight st1 = []"
proof -
  let ?r0 = "fst (batch_partition newURL ls now bookmarks options)"
  let ?P = "\<lambda>st. run_inv C ?r0 ls n st \<and> live C st"
  have start: "?P (launch C n (batch_init newURL ls now bookmarks onProgress options))"
    using run_inv_launch [OF run_inv_init, of newURL sched ls now bookmarks onProgress options n]
      live_launch [OF concurrency_pos, of C options "length bookmarks"]
    by (simp add: C_def n_def)
  have "?P st1 \<and> (inflight st1 = [] \<or> rejected st1 \<noteq> None)"
    unfolding st1_def
    by (rule run_rule [where P = ?P, OF start]) (use run_inv_sched_step in blast)
  then show ?thesis
    by (auto simp: run_inv_def inv_count_def)
qed

subsection \<open>Batch runs: the whole function\<close>

lemma batch_partition_char:
  "distinct (map bm_id bookmarks) \<Longrightarrow>
   batch_partition newURL ls now bookmarks options =
     (upfront_of (batch_dispose newURL ls now options) bookmarks,
      queue_of (batch_dispose newURL ls now options) bookmarks)"
  by (simp add: batch_partition_def batch_dispose_def partition_targets_char)

lemma batch_result:
  fixes newURL sched ls now bookmarks onProgress options
  defines "C \<equiv> batch_ctx newURL sched ls now bookmarks onProgress options"
    and "n \<equiv> nat (batch_concurrency options (length bookmarks))"
  defines "st1 \<equiv> run C (launch C n (batch_init newURL ls now bookmarks onProgress options))"
  shows "batchCheckLinks newURL sched ls now bookmarks onProgress options =
           (Inr (map (\<lambda>b. case map_of (resultsById st1) (bm_id b) of
                            Some r \<Rightarrow> r | None \<Rightarrow> placeholder b) bookmarks),
            if aborted st1 then st1 else st1\<lparr>storage := writeCache (cache st1) ls\<rparr>)"
proof -
  have inv: "run_inv C (fst (batch_partition newURL ls now bookmarks options)) ls n st1"
    using batch_run [of newURL sched ls now bookmarks onProgress options]
    by (simp add: C_def n_def st1_def)
  then have "rejected st1 = None" "storage st1 = ls"
    by (simp_all add: run_inv_def inv_count_def)
  then show ?thesis
    by (auto simp: batchCheckLinks_def Let_def C_def [symmetric] n_def [symmetric]
        st1_def [symmetric] placeholder_def split: option.splits)
qed

lemma batch_final_fields:
  fixes newURL sched ls now bookmarks onProgress options
  defines "C \<equiv> batch_ctx newURL sched ls now bookmarks onProgress options"
    and "n \<equiv> nat (batch_concurrency options (length bookmarks))"
  defines "st1 \<equiv> run C (launch C n (batch_init newURL ls now bookmarks onProgress options))"
    and "R \<equiv> batchCheckLinks newURL sched ls now bookmarks onProgress options"
  shows "progress (snd R) = progress st1" "requests (snd R) = requests st1"
    "checked (snd R) = checked st1" "aborted (snd R) = aborted st1"
    "launched (snd R) = launched st1" "resultsById (snd R) = resultsById st1"
    "cache (snd R) = cache st1" "processed (snd R) = processed st1"
    "storage (snd R) = (if aborted st1 then ls else writeCache (cache st1) ls)"
    "fst R = Inr (map (\<lambda>b. case map_of (resultsById st1) (bm_id b) of
                            Some r \<Rightarrow> r | None \<Rightarrow> placeholder b) bookmarks)"
proof -
  have inv: "run_inv C (fst (batch_partition newURL ls now bookmarks options)) ls n st1"
    using batch_run [of newURL sched ls now bookmarks onProgress options]
    by (simp add: C_def n_def st1_def)
  have R: "R = (Inr (map (\<lambda>b. case map_of (resultsById st1) (bm_id b) of
                            Some r \<Rightarrow> r | None \<Rightarrow> placeholder b) bookmarks),
            if aborted st1 then st1 else st1\<lparr>storage := writeCache (cache st1) ls\<rparr>)"
    unfolding R_def st1_def C_def n_def by (rule batch_result)
  show "progress (snd R) = progress st1" "requests (snd R) = requests st1"
    "checked (snd R) = checked st1" "aborted (snd R) = aborted st1"
    "launched (snd R) = launched st1" "resultsById (snd R) = resultsById st1"
    "cache (snd R) = cache st1" "processed (snd R) = processed st1"
    "fst R = Inr (map (\<lambda>b. case map_of (resultsById st1) (bm_id b) of
                            Some r \<Rightarrow> r | None \<Rightarrow> placeholder b) bookmarks)"
    by (simp_all add: R)
  show "storage (snd R) = (if aborted st1 then ls else writeCache (cache st1) ls)"
    using inv by (simp add: R run_inv_def)
qed


lemma sched_step_storage:
  assumes "inflight st \<noteq> []"
  shows "storage (sched_step C st) = storage st
         \<and> (\<exists>index item s. (index, item) \<in> set (inflight st)
               \<and> fst (check_of C index item) = Inr s
               \<and> checked (sched_step C st) = checked st @ [index]
               \<and> cache (sched_step C st)
                   = (cache st)\<lparr>co_entries :=
                       AList.update (bm_url item)
                         \<lparr>ce_status = s, ce_checkedAt = sch_now (rc_sched C) index\<rparr>
                         (co_entries (cache st))\<rparr>)"
proof -
  obtain st1 A B index item status where
    st1: "st1 = st \<or> st1 = st\<lparr>aborted := True\<rparr> \<and> rc_signal C"
    and split: "inflight st = A @ (index, item) # B"
    and chk: "fst (check_of C index item) = Inr status"
    and step: "sched_step C st = (settled C st1 A B index item status)\<lparr>steps := steps st + 1\<rparr>"
    using sched_step_step [OF assms, of C] by blast
  have same: "storage st1 = storage st" "checked st1 = checked st" "cache st1 = cache st"
    using st1 by auto
  have "(index, item) \<in> set (inflight st)"
    using split by simp
  moreover have "checked (sched_step C st) = checked st @ [index]"
    unfolding step settled_fields same ..
  moreover have "cache (sched_step C st)
                   = (cache st)\<lparr>co_entries :=
                       AList.update (bm_url item)
                         \<lparr>ce_status = status, ce_checkedAt = sch_now (rc_sched C) index\<rparr>
                         (co_entries (cache st))\<rparr>"
    unfolding step settled_cache same ..
  moreover have "storage (sched_step C st) = storage st"
    unfolding step settled_fields same ..
  ultimately show ?thesis
    using chk by blast
qed

lemma batch_final_cache:
  fixes newURL sched ls now bookmarks onProgress options
  defines "C \<equiv> batch_ctx newURL sched ls now bookmarks onProgress options"
    and "R \<equiv> batchCheckLinks newURL sched ls now bookmarks onProgress options"
  shows "cache (snd R)
           = (readCache ls)\<lparr>co_entries :=
               entries_after C (checked (snd R)) (co_entries (readCache ls))\<rparr>"
proof -
  have "inv_cache C (readCache ls)
          (run C (launch C (nat (batch_concurrency options (length bookmarks)))
                    (batch_init newURL ls now bookmarks onProgress options)))"
    using batch_run [of newURL sched ls now bookmarks onProgress options]
    by (simp add: run_inv_def C_def)
  then show ?thesis
    using batch_final_fields(3,7) [of newURL sched ls now bookmarks onProgress options]
    by (simp add: inv_cache_def R_def C_def)
qed

lemma queue_id_inr:
  assumes "distinct (map bm_id bs)" and "b \<in> set bs"
    and "item \<in> set (queue_of (dispose newURL cm now ttl force) bs)"
    and "bm_id item = bm_id b"
  shows "dispose newURL cm now ttl force b = Inr item"
proof -
  obtain b' where b': "b' \<in> set bs" "dispose newURL cm now ttl force b' = Inr item"
    using assms(3) by (auto simp: queue_member)
  have "bm_id b' = bm_id b"
    using dispose_Inr [OF b'(2)] assms(4) by simp
  moreover have "inj_on bm_id (set bs)"
    using assms(1) by (simp add: distinct_map)
  ultimately have "b' = b"
    using b'(1) assms(2) by (auto dest: inj_onD)
  then show ?thesis
    using b'(2) by simp
qed

lemma batch_entry:
  fixes newURL sched ls now bookmarks onProgress options
  defines "C \<equiv> batch_ctx newURL sched ls now bookmarks onProgress options"
    and "n \<equiv> nat (batch_concurrency options (length bookmarks))"
  defines "st1 \<equiv> run C (launch C n (batch_init newURL ls now bookmarks onProgress options))"
  assumes ids: "distinct (map bm_id bookmarks)" and b: "b \<in> set bookmarks"
  shows "case batch_dispose newURL ls now options b of
           Inl r \<Rightarrow> map_of (resultsById st1) (bm_id b) = Some r
         | Inr item \<Rightarrow>
             (\<exists>j < length (rc_queue C). rc_queue C ! j = item
                \<and> (if j \<in> set (checked st1)
                    then map_of (resultsById st1) (bm_id b) = Some (recorded C j)
                    else map_of (resultsById st1) (bm_id b) = None \<and> aborted st1))"
proof -
  let ?d = "batch_dispose newURL ls now options"
  let ?r0 = "fst (batch_partition newURL ls now bookmarks options)"
  have part: "?r0 = upfront_of ?d bookmarks" "rc_queue C = queue_of ?d bookmarks"
    using batch_partition_char [OF ids, of newURL ls now options]
    by (simp_all add: C_def batch_ctx_def)
  have qd: "distinct (map bm_id (rc_queue C))"
    unfolding part(2) batch_dispose_def by (rule queue_distinct [OF ids])
  have inv: "run_inv C ?r0 ls n st1" "live C st1" "inflight st1 = []"
    using batch_run [of newURL sched ls now bookmarks onProgress options]
    by (simp_all add: C_def n_def st1_def)
  have res: "inv_results C ?r0 st1" and jobs: "inv_jobs C st1"
    using inv(1) qd by (simp_all add: run_inv_def)
  have chk: "set (checked st1) = {j. j < cursor st1 \<and> j < length (rc_queue C)}"
    using jobs inv(3) unfolding inv_jobs_def by simp
  have rec: "map_of (resultsById st1) (bm_id (rc_queue C ! j)) = Some (recorded C j)"
    if "j \<in> set (checked st1)" for j
    using res that unfolding inv_results_def by blast
  have keep: "map_of (resultsById st1) k = map_of ?r0 k"
    if "k \<notin> (\<lambda>j. bm_id (rc_queue C ! j)) ` set (checked st1)" for k
    using res that unfolding inv_results_def by blast
  have r0: "map_of ?r0 (bm_id b) = (case ?d b of Inl r \<Rightarrow> Some r | Inr _ \<Rightarrow> None)"
    unfolding part(1) by (rule upfront_lookup [OF ids b])
  show ?thesis
  proof (cases "?d b")
    case (Inl r)
    have "bm_id b \<notin> (\<lambda>j. bm_id (rc_queue C ! j)) ` set (checked st1)"
    proof
      assume "bm_id b \<in> (\<lambda>j. bm_id (rc_queue C ! j)) ` set (checked st1)"
      then obtain j where j: "j < length (rc_queue C)" "bm_id (rc_queue C ! j) = bm_id b"
        using chk by auto
      then have "rc_queue C ! j \<in> set (queue_of ?d bookmarks)"
        using part(2) by (metis nth_mem)
      then have "?d b = Inr (rc_queue C ! j)"
        using queue_id_inr [OF ids b _ j(2)] unfolding batch_dispose_def by blast
      then show False
        using Inl by simp
    qed
    then show ?thesis
      using keep r0 Inl by simp
  next
    case (Inr item)
    have "item \<in> set (rc_queue C)"
      unfolding part(2) queue_member using b Inr by blast
    then obtain j where j: "j < length (rc_queue C)" "rc_queue C ! j = item"
      by (auto simp: in_set_conv_nth)
    have idb: "bm_id item = bm_id b"
      using Inr dispose_Inr unfolding batch_dispose_def by blast
    have "if j \<in> set (checked st1)
          then map_of (resultsById st1) (bm_id b) = Some (recorded C j)
          else map_of (resultsById st1) (bm_id b) = None \<and> aborted st1"
    proof (cases "j \<in> set (checked st1)")
      case True
      then show ?thesis
        using rec [OF True] j(2) idb by simp
    next
      case False
      have "bm_id b \<notin> (\<lambda>j. bm_id (rc_queue C ! j)) ` set (checked st1)"
      proof
        assume "bm_id b \<in> (\<lambda>j. bm_id (rc_queue C ! j)) ` set (checked st1)"
        then obtain j' where j': "j' \<in> set (checked st1)" "j' < length (rc_queue C)"
          "bm_id (rc_queue C ! j') = bm_id b"
          using chk by auto
        then have "map bm_id (rc_queue C) ! j' = map bm_id (rc_queue C) ! j"
          using j idb by simp
        then have "j' = j"
          using qd j(1) j'(2) nth_eq_iff_index_eq [of "map bm_id (rc_queue C)" j' j] by simp
        then show False
          using j'(1) False by simp
      qed
      then have none: "map_of (resultsById st1) (bm_id b) = None"
        using keep r0 Inr by simp
      have "\<not> j < cursor st1"
        using False j(1) chk by simp
      then have "aborted st1"
        using inv(2,3) j(1) by (simp add: live_def)
      then show ?thesis
        using none False by simp
    qed
    then show ?thesis
      using Inr j by auto
  qed
qed

lemma inv_keys_update: "inv_keys al \<Longrightarrow> res_id r = k \<Longrightarrow> inv_keys (AList.update k r al)"
  by (simp add: inv_keys_def update_conv')

lemma inv_keys_partition_step:
  "inv_keys (fst acc) \<Longrightarrow> inv_keys (fst (partition_step newURL cm now ttl force acc b))"
  by (cases "dispose newURL cm now ttl force b")
     (auto simp: partition_step_dispose dest: dispose_Inl intro: inv_keys_update)

lemma inv_keys_partition:
  "inv_keys (fst acc) \<Longrightarrow>
   inv_keys (fst (foldl (partition_step newURL cm now ttl force) acc bs))"
  by (induction bs arbitrary: acc) (simp_all add: inv_keys_partition_step)

lemma inv_keys_init:
  "inv_keys (resultsById (batch_init newURL ls now bookmarks onProgress options))"
  using inv_keys_partition [of "([], [])"]
  by (simp add: batch_init_def batch_partition_def partition_targets_def Let_def inv_keys_def)

lemma inv_keys_launch_step:
  "inv_keys (resultsById st) \<Longrightarrow> inv_keys (resultsById (launch_step C st))"
  by (simp add: launch_step_def)

lemma inv_keys_sched_step:
  assumes "inv_keys (resultsById st)" and "inflight st \<noteq> []"
  shows "inv_keys (resultsById (sched_step C st))"
proof -
  obtain st1 A B index item status where
    st1: "st1 = st \<or> st1 = st\<lparr>aborted := True\<rparr> \<and> rc_signal C"
    and step: "sched_step C st = (settled C st1 A B index item status)\<lparr>steps := steps st + 1\<rparr>"
    using sched_step_step [OF assms(2), of C] by blast
  have "resultsById st1 = resultsById st"
    using st1 by auto
  then show ?thesis
    unfolding step settled_fields using assms(1) by (simp add: inv_keys_update)
qed

lemma batch_result_ids:
  fixes newURL sched ls now bookmarks onProgress options
  defines "C \<equiv> batch_ctx newURL sched ls now bookmarks onProgress options"
    and "n \<equiv> nat (batch_concurrency options (length bookmarks))"
  defines "st1 \<equiv> run C (launch C n (batch_init newURL ls now bookmarks onProgress options))"
  shows "inv_keys (resultsById st1)"
proof -
  let ?P = "\<lambda>st. inv_keys (resultsById st)"
  have "?P (launch C n (batch_init newURL ls now bookmarks onProgress options))"
    by (rule launch_rule [where P = ?P]) (simp_all add: inv_keys_init inv_keys_launch_step)
  then have "?P st1 \<and> (inflight st1 = [] \<or> rejected st1 \<noteq> None)"
    unfolding st1_def
    by (rule run_rule [where P = ?P]) (simp add: inv_keys_sched_step)
  then show ?thesis
    by simp
qed

subsection \<open>Batch runs: the claims\<close>

text \<open>
  C9, as stated, fails: with five bookmarks that are all served from a fresh cache entry
  the queue is empty, so the least of the concurrency, the queue length and the requested
  concurrency is 0, and yet five workers are started.
\<close>

theorem batch_workers_launched_counterexample:
  "launched (snd cached_run) = 5
   \<and> snd (batch_partition example_newURL warm_storage 1000 five_bookmarks no_options) = []
   \<and> launched (snd cached_run)
       \<noteq> nat (min (batch_concurrency no_options (length five_bookmarks))
                (min (int (length (snd (batch_partition example_newURL warm_storage 1000
                                          five_bookmarks no_options))))
                     20))"
proof -
  have a: "launched (snd cached_run) = 5"
    by code_simp
  have b: "snd (batch_partition example_newURL warm_storage 1000 five_bookmarks no_options) = []"
    by code_simp
  have c: "nat (min (batch_concurrency no_options (length five_bookmarks))
                (min (int (length ([] :: bookmark list))) 20)) = 0"
    by simp
  show ?thesis
    unfolding a b c by simp
qed

text \<open>
  C9, as amended. For every run, \<open>batchCheckLinks\<close> starts exactly
  \<open>max 1 (min c (total or 1))\<close> workers, where \<open>c\<close> is the concurrency asked for (20 by
  default) and \<open>total\<close> is the number of targets passed in: the bound is the number of input
  targets, not the length of the queue. (A worker that finds the queue used up leaves at
  once.)
\<close>

theorem batch_workers_launched:
  "launched (snd (batchCheckLinks newURL sched ls now bookmarks onProgress options)) =
     nat (max 1 (min (case opt_concurrency options of None \<Rightarrow> 20 | Some c \<Rightarrow> c)
                     (if bookmarks = [] then 1 else int (length bookmarks))))"
  using batch_run [of newURL sched ls now bookmarks onProgress options]
    batch_final_fields(5) [of newURL sched ls now bookmarks onProgress options]
  by (simp add: run_inv_def batch_concurrency_def)

theorem batch_workers_launched_witness:
  "launched (snd cold_run) = 5
   \<and> launched (snd aborted_run) = 1"
  using batch_workers_launched
    [of example_newURL steady_schedule empty_storage 1000 five_bookmarks True no_options]
    batch_workers_launched
    [of example_newURL abort_schedule empty_storage 1000 five_bookmarks True
        one_worker_with_signal]
  by (simp add: cold_run_def aborted_run_def no_options_def one_worker_with_signal_def
      five_bookmarks_def)




text \<open>
  C4, as stated, fails: in the run over five bookmarks with an empty storage, after the
  first check has settled (queue item 0, with a cache entry in memory) the storage still
  has no item and \<^verbatim>\<open>setItem\<close> has not been called: nothing of the run would outlast a crash
  at this point.
\<close>

theorem cache_written_per_check_counterexample:
  "checked first_settlement = [0]
   \<and> co_entries (cache first_settlement)
       = [(''https://a.example/'', \<lparr>ce_status = Ok, ce_checkedAt = 5000\<rparr>)]
   \<and> ls_item (storage first_settlement) = None
   \<and> ls_setItem_calls (storage first_settlement) = []"
proof -
  have a: "checked first_settlement = [0]"
    by code_simp
  have b: "co_entries (cache first_settlement)
       = [(''https://a.example/'', \<lparr>ce_status = Ok, ce_checkedAt = 5000\<rparr>)]"
    by code_simp
  have c: "ls_item (storage first_settlement) = None"
    by code_simp
  have d: "ls_setItem_calls (storage first_settlement) = []"
    by code_simp
  show ?thesis
    using a b c d by blast
qed

text \<open>
  C4, as amended. During a batch run the entry of a check (the status the check resolved
  to and the time of the settlement, under the url of the queue item) is stored in the
  cache object in memory as soon as that check has settled, and the storage is left alone:
  no settlement changes it or calls \<^verbatim>\<open>setItem\<close>, and when the last worker has left it is
  still what it was at the start. At the end the cache object in memory has the entries
  read at the start and those of the settled checks. If the signal is aborted then,
  nothing is written. Otherwise \<^verbatim>\<open>setItem\<close> is called exactly once, with the JSON of that
  object (of the array, without the entries, if the stored text was the JSON of an array),
  and this is the item afterwards unless \<^verbatim>\<open>setItem\<close> throws, which leaves the old item.
\<close>

theorem cache_written_once_after_workers:
  fixes newURL sched ls now bookmarks onProgress options
  defines "C \<equiv> batch_ctx newURL sched ls now bookmarks onProgress options"
    and "R \<equiv> batchCheckLinks newURL sched ls now bookmarks onProgress options"
  defines "arr \<equiv> \<not> ls_getItem_throws ls \<and> ls_item ls = Some JsonArray"
    and "entries0 \<equiv>
           (case ls_item ls of
              Some (CacheObject parsed) \<Rightarrow> if ls_getItem_throws ls then [] else parsed
            | _ \<Rightarrow> [])"
  defines "entries \<equiv>
             fold (\<lambda>j. AList.update (bm_url (rc_queue C ! j))
                          \<lparr>ce_status = status_of C j, ce_checkedAt = sch_now sched j\<rparr>)
               (checked (snd R)) entries0"
  defines "written \<equiv> (if arr then JsonArray else CacheObject entries)"
  shows "(\<forall>st. inflight st \<noteq> [] \<longrightarrow>
            storage (sched_step C st) = storage st
            \<and> (\<exists>index item s. (index, item) \<in> set (inflight st)
                  \<and> fst (check_of C index item) = Inr s
                  \<and> checked (sched_step C st) = checked st @ [index]
                  \<and> cache (sched_step C st)
                      = \<lparr>co_array = co_array (cache st),
                         co_entries =
                           AList.update (bm_url item)
                             \<lparr>ce_status = s, ce_checkedAt = sch_now sched index\<rparr>
                             (co_entries (cache st))\<rparr>))
         \<and> storage (run C (launch C (nat (batch_concurrency options (length bookmarks)))
                              (batch_init newURL ls now bookmarks onProgress options))) = ls
         \<and> cache (snd R) = \<lparr>co_array = arr, co_entries = entries\<rparr>
         \<and> storage (snd R) =
             (if aborted (snd R) then ls
              else \<lparr>ls_item = (if ls_setItem_throws ls then ls_item ls else Some written),
                    ls_getItem_throws = ls_getItem_throws ls,
                    ls_setItem_throws = ls_setItem_throws ls,
                    ls_setItem_calls = ls_setItem_calls ls @ [written]\<rparr>)"
proof -
  have s: "rc_sched C = sched"
    by (simp add: C_def batch_ctx_def)
  have a: "\<forall>st. inflight st \<noteq> [] \<longrightarrow>
            storage (sched_step C st) = storage st
            \<and> (\<exists>index item s. (index, item) \<in> set (inflight st)
                  \<and> fst (check_of C index item) = Inr s
                  \<and> checked (sched_step C st) = checked st @ [index]
                  \<and> cache (sched_step C st)
                      = \<lparr>co_array = co_array (cache st),
                         co_entries =
                           AList.update (bm_url item)
                             \<lparr>ce_status = s, ce_checkedAt = sch_now sched index\<rparr>
                             (co_entries (cache st))\<rparr>)"
  proof (intro allI impI)
    fix st :: batch_state
    assume "inflight st \<noteq> []"
    from sched_step_storage [OF this, of C]
    obtain index item s where
      "storage (sched_step C st) = storage st" "(index, item) \<in> set (inflight st)"
      "fst (check_of C index item) = Inr s" "checked (sched_step C st) = checked st @ [index]"
      "cache (sched_step C st)
         = (cache st)\<lparr>co_entries :=
             AList.update (bm_url item)
               \<lparr>ce_status = s, ce_checkedAt = sch_now sched index\<rparr> (co_entries (cache st))\<rparr>"
      unfolding s by blast
    moreover have "(cache st)\<lparr>co_entries := x\<rparr> = \<lparr>co_array = co_array (cache st), co_entries = x\<rparr>"
      for x
      by simp
    ultimately show "storage (sched_step C st) = storage st
            \<and> (\<exists>index item s. (index, item) \<in> set (inflight st)
                  \<and> fst (check_of C index item) = Inr s
                  \<and> checked (sched_step C st) = checked st @ [index]
                  \<and> cache (sched_step C st)
                      = \<lparr>co_array = co_array (cache st),
                         co_entries =
                           AList.update (bm_url item)
                             \<lparr>ce_status = s, ce_checkedAt = sch_now sched index\<rparr>
                             (co_entries (cache st))\<rparr>)"
      by metis
  qed
  have b: "storage (run C (launch C (nat (batch_concurrency options (length bookmarks)))
                              (batch_init newURL ls now bookmarks onProgress options))) = ls"
    using batch_run [of newURL sched ls now bookmarks onProgress options]
    by (simp add: run_inv_def C_def)
  have rd: "readCache ls = \<lparr>co_array = arr, co_entries = entries0\<rparr>"
    by (simp add: readCache_def arr_def entries0_def split: option.splits stored.splits)
  have en: "entries_after C (checked (snd R)) entries0 = entries"
    by (simp add: entries_after_def entries_def s)
  have c: "cache (snd R) = \<lparr>co_array = arr, co_entries = entries\<rparr>"
    using batch_final_cache [of newURL sched ls now bookmarks onProgress options]
    unfolding C_def [symmetric] R_def [symmetric] rd by (simp add: en)
  have wr: "stringify (cache (snd R)) = written"
    by (simp add: c stringify_def written_def)
  have d: "storage (snd R) =
             (if aborted (snd R) then ls
              else \<lparr>ls_item = (if ls_setItem_throws ls then ls_item ls else Some written),
                    ls_getItem_throws = ls_getItem_throws ls,
                    ls_setItem_throws = ls_setItem_throws ls,
                    ls_setItem_calls = ls_setItem_calls ls @ [written]\<rparr>)"
    using batch_final_fields(4,7,9) [of newURL sched ls now bookmarks onProgress options] wr
    by (simp add: R_def writeCache_def)
  show ?thesis
    using a b c d by blast
qed

theorem cache_written_once_after_workers_witness:
  "storage first_settlement = empty_storage
   \<and> storage (snd aborted_run) = empty_storage
   \<and> storage (snd cold_run)
       = \<lparr>ls_item = Some (CacheObject
            [(''https://a.example/'', \<lparr>ce_status = Ok, ce_checkedAt = 5004\<rparr>),
             (''https://b.example/'', \<lparr>ce_status = Dead, ce_checkedAt = 5003\<rparr>)]),
          ls_getItem_throws = False, ls_setItem_throws = False,
          ls_setItem_calls = [CacheObject
            [(''https://a.example/'', \<lparr>ce_status = Ok, ce_checkedAt = 5004\<rparr>),
             (''https://b.example/'', \<lparr>ce_status = Dead, ce_checkedAt = 5003\<rparr>)]]\<rparr>
   \<and> storage (snd array_run)
       = \<lparr>ls_item = Some JsonArray, ls_getItem_throws = False, ls_setItem_throws = False,
          ls_setItem_calls = [JsonArray]\<rparr>
   \<and> storage (snd quota_run)
       = \<lparr>ls_item = Some NotAnObject, ls_getItem_throws = False, ls_setItem_throws = True,
          ls_setItem_calls = [CacheObject
            [(''https://a.example/'', \<lparr>ce_status = Ok, ce_checkedAt = 5000\<rparr>),
             (''https://b.example/'', \<lparr>ce_status = Dead, ce_checkedAt = 5001\<rparr>)]]\<rparr>"
proof -
  have busy: "inflight workers_started \<noteq> []"
    by code_simp
  have st: "storage workers_started = empty_storage"
    by code_simp
  have a: "storage first_settlement = empty_storage"
    using cache_written_once_after_workers
      [of example_newURL steady_schedule empty_storage 1000 five_bookmarks True no_options]
      busy st
    unfolding first_settlement_def workers_started_def by simp
  have ab: "aborted (snd aborted_run) = True"
    by code_simp
  have b: "storage (snd aborted_run) = empty_storage"
    using cache_written_once_after_workers
      [of example_newURL abort_schedule empty_storage 1000 five_bookmarks True
          one_worker_with_signal]
      ab
    unfolding aborted_run_def by simp
  have c: "storage (snd cold_run)
       = \<lparr>ls_item = Some (CacheObject
            [(''https://a.example/'', \<lparr>ce_status = Ok, ce_checkedAt = 5004\<rparr>),
             (''https://b.example/'', \<lparr>ce_status = Dead, ce_checkedAt = 5003\<rparr>)]),
          ls_getItem_throws = False, ls_setItem_throws = False,
          ls_setItem_calls = [CacheObject
            [(''https://a.example/'', \<lparr>ce_status = Ok, ce_checkedAt = 5004\<rparr>),
             (''https://b.example/'', \<lparr>ce_status = Dead, ce_checkedAt = 5003\<rparr>)]]\<rparr>"
    by code_simp
  have d: "storage (snd array_run)
       = \<lparr>ls_item = Some JsonArray, ls_getItem_throws = False, ls_setItem_throws = False,
          ls_setItem_calls = [JsonArray]\<rparr>"
    by code_simp
  have e: "storage (snd quota_run)
       = \<lparr>ls_item = Some NotAnObject, ls_getItem_throws = False, ls_setItem_throws = True,
          ls_setItem_calls = [CacheObject
            [(''https://a.example/'', \<lparr>ce_status = Ok, ce_checkedAt = 5000\<rparr>),
             (''https://b.example/'', \<lparr>ce_status = Dead, ce_checkedAt = 5001\<rparr>)]]\<rparr>"
    by code_simp
  show ?thesis
    using a b c d e by blast
qed

text \<open>
  C3, as stated, fails when two targets share an id. One worker runs over three targets,
  the first two with the id \<open>x\<close>. The check of the first (queue item 0) settles with \<open>Ok\<close>;
  then the signal aborts, the check of the second, already under way, is cancelled and
  settles with \<open>Dead\<close>, and its result replaces that of the first in \<^verbatim>\<open>resultsById\<close>. So the
  first target, whose check was completed before the abort, is reported with the url of
  the second and \<open>Dead\<close>, not with its real status.
\<close>

theorem batch_abort_results_counterexample:
  "checked (snd twin_aborted_run) = [0, 1]
   \<and> aborted (snd twin_aborted_run) = True
   \<and> recorded (batch_ctx example_newURL early_abort_schedule empty_storage 1000
                 twin_bookmarks True one_worker_with_signal) 0
       = \<lparr>res_id = ''x'', res_url = ''https://a.example/'', res_status = Ok\<rparr>
   \<and> fst twin_aborted_run
       = Inr [\<lparr>res_id = ''x'', res_url = ''https://b.example/'', res_status = Dead\<rparr>,
              \<lparr>res_id = ''x'', res_url = ''https://b.example/'', res_status = Dead\<rparr>,
              \<lparr>res_id = ''y'', res_url = ''https://a.example/'', res_status = Dead\<rparr>]"
proof -
  have a: "checked (snd twin_aborted_run) = [0, 1]"
    by code_simp
  have b: "aborted (snd twin_aborted_run) = True"
    by code_simp
  have c: "recorded (batch_ctx example_newURL early_abort_schedule empty_storage 1000
                 twin_bookmarks True one_worker_with_signal) 0
       = \<lparr>res_id = ''x'', res_url = ''https://a.example/'', res_status = Ok\<rparr>"
    by code_simp
  have d: "fst twin_aborted_run
       = Inr [\<lparr>res_id = ''x'', res_url = ''https://b.example/'', res_status = Dead\<rparr>,
              \<lparr>res_id = ''x'', res_url = ''https://b.example/'', res_status = Dead\<rparr>,
              \<lparr>res_id = ''y'', res_url = ''https://a.example/'', res_status = Dead\<rparr>]"
    by code_simp
  show ?thesis
    using a b c d by blast
qed

text \<open>
  C3, as amended. For every schedule, in particular one in which the external signal
  aborts in the middle of the run, \<open>batchCheckLinks\<close> resolves to a list that is as long as
  the input and has the ids of the input in the same order; provided the ids of the
  targets are pairwise distinct, every check that has settled has its recorded result (the
  id, the normalized url and the status that the check returned) at the place of its
  target; every target with no entry in \<^verbatim>\<open>resultsById\<close> gets the placeholder with status
  \<open>Dead\<close>; and when the signal is aborted at the end, the storage is what it was at the
  start and \<^verbatim>\<open>setItem\<close> has not been called.
\<close>

theorem batch_abort_results:
  fixes newURL sched ls now bookmarks onProgress options
  defines "C \<equiv> batch_ctx newURL sched ls now bookmarks onProgress options"
    and "R \<equiv> batchCheckLinks newURL sched ls now bookmarks onProgress options"
  shows "\<exists>rs. fst R = Inr rs \<and> length rs = length bookmarks
           \<and> map res_id rs = map bm_id bookmarks
           \<and> (distinct (map bm_id bookmarks) \<longrightarrow>
                (\<forall>j \<in> set (checked (snd R)).
                   \<exists>i < length bookmarks. bm_id (bookmarks ! i) = bm_id (rc_queue C ! j)
                     \<and> rs ! i = recorded C j))
           \<and> (\<forall>i < length bookmarks.
                 map_of (resultsById (snd R)) (bm_id (bookmarks ! i)) = None
                 \<longrightarrow> rs ! i = placeholder (bookmarks ! i))
           \<and> (aborted (snd R) \<longrightarrow> storage (snd R) = ls)"
proof -
  define n where "n = nat (batch_concurrency options (length bookmarks))"
  define st1 where
    "st1 = run C (launch C n (batch_init newURL ls now bookmarks onProgress options))"
  define entry where
    "entry = (\<lambda>b. case map_of (resultsById st1) (bm_id b) of
                     Some r \<Rightarrow> r | None \<Rightarrow> placeholder b)"
  define rs where "rs = map entry bookmarks"
  let ?d = "batch_dispose newURL ls now options"
  have fields: "fst R = Inr rs" "checked (snd R) = checked st1"
    "resultsById (snd R) = resultsById st1" "aborted (snd R) = aborted st1"
    "storage (snd R) = (if aborted st1 then ls else writeCache (cache st1) ls)"
    using batch_final_fields(10,3,6,4,9) [of newURL sched ls now bookmarks onProgress options]
    by (simp_all add: R_def st1_def C_def n_def rs_def entry_def)
  have keys: "inv_keys (resultsById st1)"
    unfolding st1_def n_def C_def by (rule batch_result_ids)
  have id: "res_id (entry b) = bm_id b" for b
    using keys by (cases "map_of (resultsById st1) (bm_id b)")
      (simp_all add: entry_def placeholder_def inv_keys_def)
  have a: "map res_id rs = map bm_id bookmarks"
    using id by (simp add: rs_def)
  have b: "\<exists>i < length bookmarks. bm_id (bookmarks ! i) = bm_id (rc_queue C ! j)
                   \<and> rs ! i = recorded C j"
    if ids: "distinct (map bm_id bookmarks)" and j: "j \<in> set (checked st1)" for j
  proof -
    have part: "rc_queue C = queue_of ?d bookmarks"
      using batch_partition_char [OF ids, of newURL ls now options]
      by (simp add: C_def batch_ctx_def)
    have inv: "inv_jobs C st1" "inflight st1 = []"
      using batch_run [of newURL sched ls now bookmarks onProgress options]
      by (simp_all add: C_def n_def st1_def run_inv_def)
    have "set (checked st1) \<union> fst ` set (inflight st1)
            = {j. j < cursor st1 \<and> j < length (rc_queue C)}"
      using inv(1) unfolding inv_jobs_def by blast
    then have lt: "j < length (rc_queue C)"
      using j by auto
    then have "rc_queue C ! j \<in> set (queue_of ?d bookmarks)"
      using part by (metis nth_mem)
    then obtain b where b: "b \<in> set bookmarks" "?d b = Inr (rc_queue C ! j)"
      unfolding queue_member by blast
    obtain i where i: "i < length bookmarks" "bookmarks ! i = b"
      using b(1) by (auto simp: in_set_conv_nth)
    have idb: "bm_id (rc_queue C ! j) = bm_id b"
      using b(2) dispose_Inr unfolding batch_dispose_def by blast
    have "case ?d b of
           Inl r \<Rightarrow> map_of (resultsById st1) (bm_id b) = Some r
         | Inr item \<Rightarrow>
             (\<exists>j < length (rc_queue C). rc_queue C ! j = item
                \<and> (if j \<in> set (checked st1)
                    then map_of (resultsById st1) (bm_id b) = Some (recorded C j)
                    else map_of (resultsById st1) (bm_id b) = None \<and> aborted st1))"
      unfolding st1_def n_def C_def by (rule batch_entry [OF ids b(1)])
    then obtain j' where j': "j' < length (rc_queue C)" "rc_queue C ! j' = rc_queue C ! j"
      "if j' \<in> set (checked st1)
       then map_of (resultsById st1) (bm_id b) = Some (recorded C j')
       else map_of (resultsById st1) (bm_id b) = None \<and> aborted st1"
      using b(2) by auto
    have qd: "distinct (map bm_id (rc_queue C))"
      unfolding part batch_dispose_def by (rule queue_distinct [OF ids])
    have "map bm_id (rc_queue C) ! j' = map bm_id (rc_queue C) ! j"
      using j' lt by simp
    then have "j' = j"
      using qd lt j'(1) nth_eq_iff_index_eq [of "map bm_id (rc_queue C)" j' j] by simp
    then have "entry b = recorded C j"
      using j'(3) j by (simp add: entry_def)
    then show ?thesis
      using i idb by (auto simp: rs_def)
  qed
  have c: "rs ! i = placeholder (bookmarks ! i)"
    if "i < length bookmarks" "map_of (resultsById st1) (bm_id (bookmarks ! i)) = None" for i
    using that by (simp add: rs_def entry_def)
  have d: "aborted (snd R) \<longrightarrow> storage (snd R) = ls"
    using fields(4,5) by simp
  have "fst R = Inr rs \<and> length rs = length bookmarks
           \<and> map res_id rs = map bm_id bookmarks
           \<and> (distinct (map bm_id bookmarks) \<longrightarrow>
                (\<forall>j \<in> set (checked (snd R)).
                   \<exists>i < length bookmarks. bm_id (bookmarks ! i) = bm_id (rc_queue C ! j)
                     \<and> rs ! i = recorded C j))
           \<and> (\<forall>i < length bookmarks.
                 map_of (resultsById (snd R)) (bm_id (bookmarks ! i)) = None
                 \<longrightarrow> rs ! i = placeholder (bookmarks ! i))
           \<and> (aborted (snd R) \<longrightarrow> storage (snd R) = ls)"
    unfolding fields(2,3) using fields(1) a b c d by (simp add: rs_def)
  then show ?thesis
    by blast
qed

theorem batch_abort_results_witness:
  "distinct (map bm_id five_bookmarks)
   \<and> aborted (snd aborted_run) = True
   \<and> checked (snd aborted_run) = [0, 1, 2]
   \<and> fst aborted_run
       = Inr [\<lparr>res_id = ''1'', res_url = ''https://a.example/'', res_status = Ok\<rparr>,
              \<lparr>res_id = ''2'', res_url = ''https://b.example/'', res_status = Dead\<rparr>,
              \<lparr>res_id = ''3'', res_url = ''https://a.example/'', res_status = Dead\<rparr>,
              \<lparr>res_id = ''4'', res_url = ''https://b.example/'', res_status = Dead\<rparr>,
              \<lparr>res_id = ''5'', res_url = ''https://a.example'', res_status = Dead\<rparr>]
   \<and> storage (snd aborted_run) = empty_storage"
proof -
  have ids: "distinct (map bm_id five_bookmarks)"
    by (simp add: five_bookmarks_def)
  have ab: "aborted (snd aborted_run) = True"
    by code_simp
  have ch: "checked (snd aborted_run) = [0, 1, 2]"
    by code_simp
  have rs: "fst aborted_run
       = Inr [\<lparr>res_id = ''1'', res_url = ''https://a.example/'', res_status = Ok\<rparr>,
              \<lparr>res_id = ''2'', res_url = ''https://b.example/'', res_status = Dead\<rparr>,
              \<lparr>res_id = ''3'', res_url = ''https://a.example/'', res_status = Dead\<rparr>,
              \<lparr>res_id = ''4'', res_url = ''https://b.example/'', res_status = Dead\<rparr>,
              \<lparr>res_id = ''5'', res_url = ''https://a.example'', res_status = Dead\<rparr>]"
    by code_simp
  have "storage (snd aborted_run) = empty_storage"
    using batch_abort_results
      [of example_newURL abort_schedule empty_storage 1000 five_bookmarks True
          one_worker_with_signal]
      ab
    unfolding aborted_run_def by blast
  then show ?thesis
    using ids ab ch rs by blast
qed

text \<open>
  C10, as stated, fails when two targets share an id. The first of three targets has an
  invalid url and is resolved without network work, under the id \<open>x\<close>; the second has the
  same id and is queued, and the result that a worker records for it replaces that of the
  first in \<^verbatim>\<open>resultsById\<close>. So the result of the first target does not echo its raw url: it
  carries the normalized url of the second, and its status.
\<close>

theorem batch_result_urls_counterexample:
  "normalizeUrl example_newURL ''not a url!!'' = None
   \<and> aborted (snd shared_id_run) = False
   \<and> map bm_url shared_id_bookmarks
       = [''not a url!!'', ''https://a.example'', ''https://b.example'']
   \<and> fst shared_id_run
       = Inr [\<lparr>res_id = ''x'', res_url = ''https://a.example/'', res_status = Ok\<rparr>,
              \<lparr>res_id = ''x'', res_url = ''https://a.example/'', res_status = Ok\<rparr>,
              \<lparr>res_id = ''y'', res_url = ''https://b.example/'', res_status = Dead\<rparr>]"
proof -
  have a: "normalizeUrl example_newURL ''not a url!!'' = None"
    by code_simp
  have b: "aborted (snd shared_id_run) = False"
    by code_simp
  have c: "map bm_url shared_id_bookmarks
       = [''not a url!!'', ''https://a.example'', ''https://b.example'']"
    by (simp add: shared_id_bookmarks_def)
  have d: "fst shared_id_run
       = Inr [\<lparr>res_id = ''x'', res_url = ''https://a.example/'', res_status = Ok\<rparr>,
              \<lparr>res_id = ''x'', res_url = ''https://a.example/'', res_status = Ok\<rparr>,
              \<lparr>res_id = ''y'', res_url = ''https://b.example/'', res_status = Dead\<rparr>]"
    by code_simp
  show ?thesis
    using a b c d by blast
qed

text \<open>
  C10, as amended. The url of a result is not uniform. For targets with pairwise distinct
  ids: a target that is resolved without network work (invalid url, or a fresh cache entry) gets a
  result with the raw url of the input; a target that is queued gets, once a worker has
  recorded its check, a result with the normalized url; a queued target whose check was
  never recorded, which happens only when the signal is aborted, gets the placeholder,
  again with the raw url.
\<close>

theorem batch_result_urls:
  fixes newURL sched ls now bookmarks onProgress options
  defines "C \<equiv> batch_ctx newURL sched ls now bookmarks onProgress options"
    and "R \<equiv> batchCheckLinks newURL sched ls now bookmarks onProgress options"
  assumes ids: "distinct (map bm_id bookmarks)"
  shows "\<exists>rs. fst R = Inr rs \<and> length rs = length bookmarks
           \<and> (\<forall>i < length bookmarks.
                 case batch_dispose newURL ls now options (bookmarks ! i) of
                   Inl r \<Rightarrow> rs ! i = r \<and> res_url (rs ! i) = bm_url (bookmarks ! i)
                 | Inr item \<Rightarrow>
                     normalizeUrl newURL (bm_url (bookmarks ! i)) = Some (bm_url item)
                     \<and> ((\<exists>j \<in> set (checked (snd R)). rc_queue C ! j = item
                            \<and> rs ! i = recorded C j \<and> res_url (rs ! i) = bm_url item)
                         \<or> (rs ! i = placeholder (bookmarks ! i) \<and> aborted (snd R))))"
proof -
  define n where "n = nat (batch_concurrency options (length bookmarks))"
  define st1 where
    "st1 = run C (launch C n (batch_init newURL ls now bookmarks onProgress options))"
  define entry where
    "entry = (\<lambda>b. case map_of (resultsById st1) (bm_id b) of
                     Some r \<Rightarrow> r | None \<Rightarrow> placeholder b)"
  define rs where "rs = map entry bookmarks"
  let ?d = "batch_dispose newURL ls now options"
  have fields: "fst R = Inr rs" "checked (snd R) = checked st1"
    "aborted (snd R) = aborted st1"
    using batch_final_fields(10,3,4) [of newURL sched ls now bookmarks onProgress options]
    by (simp_all add: R_def st1_def C_def n_def rs_def entry_def)
  have entry: "case ?d b of
           Inl r \<Rightarrow> map_of (resultsById st1) (bm_id b) = Some r
         | Inr item \<Rightarrow>
             (\<exists>j < length (rc_queue C). rc_queue C ! j = item
                \<and> (if j \<in> set (checked st1)
                    then map_of (resultsById st1) (bm_id b) = Some (recorded C j)
                    else map_of (resultsById st1) (bm_id b) = None \<and> aborted st1))"
    if "b \<in> set bookmarks" for b
    unfolding st1_def n_def C_def by (rule batch_entry [OF ids that])
  have each: "case ?d b of
                   Inl r \<Rightarrow> entry b = r \<and> res_url (entry b) = bm_url b
                 | Inr item \<Rightarrow>
                     normalizeUrl newURL (bm_url b) = Some (bm_url item)
                     \<and> ((\<exists>j \<in> set (checked st1). rc_queue C ! j = item
                            \<and> entry b = recorded C j \<and> res_url (entry b) = bm_url item)
                         \<or> (entry b = placeholder b \<and> aborted st1))"
    if b: "b \<in> set bookmarks" for b
  proof (cases "?d b")
    case (Inl r)
    then show ?thesis
      using entry [OF b] dispose_Inl [of newURL _ now _ _ b r]
      by (simp add: entry_def batch_dispose_def)
  next
    case (Inr item)
    then obtain j where j: "rc_queue C ! j = item"
      "if j \<in> set (checked st1)
       then map_of (resultsById st1) (bm_id b) = Some (recorded C j)
       else map_of (resultsById st1) (bm_id b) = None \<and> aborted st1"
      using entry [OF b] by auto
    have norm: "normalizeUrl newURL (bm_url b) = Some (bm_url item)"
      using Inr dispose_Inr unfolding batch_dispose_def by blast
    show ?thesis
    proof (cases "j \<in> set (checked st1)")
      case True
      then have "entry b = recorded C j \<and> res_url (entry b) = bm_url item"
        using j by (simp add: entry_def recorded_def)
      then show ?thesis
        using Inr norm True j(1) by auto
    next
      case False
      then have "entry b = placeholder b \<and> aborted st1"
        using j by (simp add: entry_def)
      then show ?thesis
        using Inr norm by simp
    qed
  qed
  have all: "\<forall>i < length bookmarks.
                 case ?d (bookmarks ! i) of
                   Inl r \<Rightarrow> rs ! i = r \<and> res_url (rs ! i) = bm_url (bookmarks ! i)
                 | Inr item \<Rightarrow>
                     normalizeUrl newURL (bm_url (bookmarks ! i)) = Some (bm_url item)
                     \<and> ((\<exists>j \<in> set (checked (snd R)). rc_queue C ! j = item
                            \<and> rs ! i = recorded C j \<and> res_url (rs ! i) = bm_url item)
                         \<or> (rs ! i = placeholder (bookmarks ! i) \<and> aborted (snd R)))"
  proof (intro allI impI)
    fix i
    assume i: "i < length bookmarks"
    then have at: "rs ! i = entry (bookmarks ! i)" and mem: "bookmarks ! i \<in> set bookmarks"
      by (simp_all add: rs_def)
    show "case ?d (bookmarks ! i) of
                   Inl r \<Rightarrow> rs ! i = r \<and> res_url (rs ! i) = bm_url (bookmarks ! i)
                 | Inr item \<Rightarrow>
                     normalizeUrl newURL (bm_url (bookmarks ! i)) = Some (bm_url item)
                     \<and> ((\<exists>j \<in> set (checked (snd R)). rc_queue C ! j = item
                            \<and> rs ! i = recorded C j \<and> res_url (rs ! i) = bm_url item)
                         \<or> (rs ! i = placeholder (bookmarks ! i) \<and> aborted (snd R)))"
      unfolding at fields(2,3) by (rule each [OF mem])
  qed
  have "fst R = Inr rs \<and> length rs = length bookmarks"
    using fields(1) by (simp add: rs_def)
  then show ?thesis
    using all by blast
qed

theorem batch_result_urls_witness:
  "distinct (map bm_id three_bookmarks)
   \<and> length three_bookmarks = 3
   \<and> fst three_cached_run
       = Inr [\<lparr>res_id = ''1'', res_url = ''https://a.example'', res_status = Ok\<rparr>,
              \<lparr>res_id = ''2'', res_url = ''not a url!!'', res_status = Dead\<rparr>,
              \<lparr>res_id = ''3'', res_url = ''https://b.example'', res_status = Dead\<rparr>]
   \<and> fst three_cold_run
       = Inr [\<lparr>res_id = ''1'', res_url = ''https://a.example/'', res_status = Ok\<rparr>,
              \<lparr>res_id = ''2'', res_url = ''not a url!!'', res_status = Dead\<rparr>,
              \<lparr>res_id = ''3'', res_url = ''https://b.example/'', res_status = Dead\<rparr>]"
proof -
  have ids: "distinct (map bm_id three_bookmarks)"
    by (simp add: three_bookmarks_def)
  have len: "length three_bookmarks = 3"
    by (simp add: three_bookmarks_def)
  have warm: "fst three_cached_run
       = Inr [\<lparr>res_id = ''1'', res_url = ''https://a.example'', res_status = Ok\<rparr>,
              \<lparr>res_id = ''2'', res_url = ''not a url!!'', res_status = Dead\<rparr>,
              \<lparr>res_id = ''3'', res_url = ''https://b.example'', res_status = Dead\<rparr>]"
    by code_simp
  have cold: "fst three_cold_run
       = Inr [\<lparr>res_id = ''1'', res_url = ''https://a.example/'', res_status = Ok\<rparr>,
              \<lparr>res_id = ''2'', res_url = ''not a url!!'', res_status = Dead\<rparr>,
              \<lparr>res_id = ''3'', res_url = ''https://b.example/'', res_status = Dead\<rparr>]"
    by code_simp
  show ?thesis
    using batch_result_urls
      [OF ids, of example_newURL steady_schedule empty_storage 1000 True no_options]
      ids len warm cold
    unfolding three_cold_run_def by blast
qed

end
